theory Spec2Isabelle
  imports
    Complex_Main
    "HOL-Library.Sublist"
    "HOL-Library.AList"
    "HOL-Library.Char_ord"
    "HOL-Library.List_Lexorder"
begin

section \<open>JavaScript values used by the webhook store\<close>

text \<open>
  A \<open>Buffer\<close> is a list of bytes; an Isabelle \<open>char\<close> is one byte. A JavaScript string is
  kept as its UTF-8 encoding, so that writing a string to a file with encoding \<open>'utf8'\<close>
  stores the representation unchanged. File names, header values and identifiers are
  strings of this kind. Numbers are unbounded (the service's counters stay far below
  \<open>2^53\<close>, where JavaScript numbers are exact).
\<close>

type_synonym buffer = string
type_synonym fname = string

subsection \<open>String methods\<close>

definition str_includes :: "string \<Rightarrow> string \<Rightarrow> bool" where
  "str_includes s p = sublist p s"

definition endsWith :: "string \<Rightarrow> string \<Rightarrow> bool" where
  "endsWith s p = suffix p s"

definition startsWith :: "string \<Rightarrow> string \<Rightarrow> bool" where
  "startsWith s p = prefix p s"

text \<open>
  \<open>String.prototype.trim\<close> removes WhiteSpace and LineTerminator code points from both
  ends. \<open>ws_tokens\<close> lists their UTF-8 encodings: U+0009..U+000D, U+0020, U+00A0, U+1680,
  U+2000..U+200A, U+2028, U+2029, U+202F, U+205F, U+3000 and U+FEFF.
\<close>

definition ws_tokens :: "string list" where
  "ws_tokens =
     [[CHR 0x09], [CHR 0x0A], [CHR 0x0B], [CHR 0x0C], [CHR 0x0D], [CHR 0x20],
      [CHR 0xC2, CHR 0xA0],
      [CHR 0xE1, CHR 0x9A, CHR 0x80],
      [CHR 0xE2, CHR 0x80, CHR 0x80], [CHR 0xE2, CHR 0x80, CHR 0x81],
      [CHR 0xE2, CHR 0x80, CHR 0x82], [CHR 0xE2, CHR 0x80, CHR 0x83],
      [CHR 0xE2, CHR 0x80, CHR 0x84], [CHR 0xE2, CHR 0x80, CHR 0x85],
      [CHR 0xE2, CHR 0x80, CHR 0x86], [CHR 0xE2, CHR 0x80, CHR 0x87],
      [CHR 0xE2, CHR 0x80, CHR 0x88], [CHR 0xE2, CHR 0x80, CHR 0x89],
      [CHR 0xE2, CHR 0x80, CHR 0x8A],
      [CHR 0xE2, CHR 0x80, CHR 0xA8], [CHR 0xE2, CHR 0x80, CHR 0xA9],
      [CHR 0xE2, CHR 0x80, CHR 0xAF],
      [CHR 0xE2, CHR 0x81, CHR 0x9F],
      [CHR 0xE3, CHR 0x80, CHR 0x80],
      [CHR 0xEF, CHR 0xBB, CHR 0xBF]]"

text \<open>The length of the white-space token a string starts with (0 when there is none).\<close>

definition ws_lead :: "string list \<Rightarrow> string \<Rightarrow> nat" where
  "ws_lead toks s = (case find (\<lambda>t. prefix t s) toks of None \<Rightarrow> 0 | Some t \<Rightarrow> length t)"

fun strip_lead :: "string list \<Rightarrow> nat \<Rightarrow> string \<Rightarrow> string" where
  "strip_lead toks 0 s = s"
| "strip_lead toks (Suc n) s =
     (if ws_lead toks s = 0 then s else strip_lead toks n (drop (ws_lead toks s) s))"

definition trimStart :: "string \<Rightarrow> string" where
  "trimStart s = strip_lead ws_tokens (length s) s"

definition trimEnd :: "string \<Rightarrow> string" where
  "trimEnd s = rev (strip_lead (map rev ws_tokens) (length s) (rev s))"

definition trim :: "string \<Rightarrow> string" where
  "trim s = trimEnd (trimStart s)"

subsection \<open>UTF-8 decoding\<close>

text \<open>
  The decoder of the Encoding Standard, which both \<open>TextDecoder\<close> and
  \<open>Buffer.toString('utf8')\<close> follow. \<open>lead b\<close> classifies a first byte: \<open>Some (lo, hi, n)\<close>
  asks for \<open>n\<close> continuation bytes, the first of them between \<open>lo\<close> and \<open>hi\<close>;
  \<open>None\<close> is a byte that cannot start a character.
\<close>

definition lead :: "nat \<Rightarrow> (nat \<times> nat \<times> nat) option" where
  "lead b =
     (if b \<le> 0x7F then Some (0x80, 0xBF, 0)
      else if 0xC2 \<le> b \<and> b \<le> 0xDF then Some (0x80, 0xBF, 1)
      else if b = 0xE0 then Some (0xA0, 0xBF, 2)
      else if b = 0xED then Some (0x80, 0x9F, 2)
      else if 0xE1 \<le> b \<and> b \<le> 0xEF then Some (0x80, 0xBF, 2)
      else if b = 0xF0 then Some (0x90, 0xBF, 3)
      else if b = 0xF4 then Some (0x80, 0x8F, 3)
      else if 0xF1 \<le> b \<and> b \<le> 0xF3 then Some (0x80, 0xBF, 3)
      else None)"

text \<open>
  \<open>conts lo hi n bs\<close> reads up to \<open>n\<close> continuation bytes from \<open>bs\<close>: it returns whether
  all \<open>n\<close> were there and how many bytes were consumed before the first failure. A byte
  that fails is not consumed: decoding resumes at it.
\<close>

fun conts :: "nat \<Rightarrow> nat \<Rightarrow> nat \<Rightarrow> buffer \<Rightarrow> bool \<times> nat" where
  "conts lo hi 0 bs = (True, 0)"
| "conts lo hi (Suc n) [] = (False, 0)"
| "conts lo hi (Suc n) (b # bs) =
     (if lo \<le> of_char b \<and> of_char b \<le> hi
      then (case conts 0x80 0xBF n bs of (ok, k) \<Rightarrow> (ok, Suc k))
      else (False, 0))"

definition replacement :: string where
  "replacement = [CHR 0xEF, CHR 0xBF, CHR 0xBD]"

text \<open>
  \<open>utf8_replace\<close> decodes with replacement: it returns whether an error was met and the
  decoded string, with U+FFFD for every ill-formed sequence. The first argument bounds the
  number of steps; one step consumes at least one byte.
\<close>

fun utf8_replace :: "nat \<Rightarrow> buffer \<Rightarrow> bool \<times> string" where
  "utf8_replace 0 bs = (False, [])"
| "utf8_replace (Suc fuel) [] = (False, [])"
| "utf8_replace (Suc fuel) (b # bs) =
     (case lead (of_char b) of
        None \<Rightarrow> (case utf8_replace fuel bs of (e, out) \<Rightarrow> (True, replacement @ out))
      | Some (lo, hi, n) \<Rightarrow>
          (case conts lo hi n bs of
             (True, k) \<Rightarrow>
               (case utf8_replace fuel (drop k bs) of (e, out) \<Rightarrow> (e, b # take k bs @ out))
           | (False, k) \<Rightarrow>
               (case utf8_replace fuel (drop k bs) of (e, out) \<Rightarrow> (True, replacement @ out))))"

text \<open>\<open>buf.toString('utf8')\<close>: never fails.\<close>

definition toString_utf8 :: "buffer \<Rightarrow> string" where
  "toString_utf8 buf = snd (utf8_replace (length buf) buf)"

definition stripBOM :: "string \<Rightarrow> string" where
  "stripBOM s = (if prefix [CHR 0xEF, CHR 0xBB, CHR 0xBF] s then drop 3 s else s)"

text \<open>
  \<open>decodeUtf8Strict\<close> of store.js: a \<open>TextDecoder('utf-8', {fatal: true})\<close>, which throws
  (\<open>None\<close>) on the first ill-formed sequence and drops a leading byte order mark.
\<close>

definition decodeUtf8Strict :: "buffer \<Rightarrow> string option" where
  "decodeUtf8Strict buf =
     (case utf8_replace (length buf) buf of
        (True, out) \<Rightarrow> None
      | (False, out) \<Rightarrow> Some (stripBOM out))"

subsection \<open>UTF-16 code units\<close>

text \<open>
  JavaScript compares strings by their UTF-16 code units. \<open>code_point\<close> is the scalar value
  of a well-formed sequence, given its first byte and its continuation bytes; \<open>utf16\<close>
  is its encoding, a surrogate pair above U+FFFF; \<open>utf16_units\<close> are the code units of
  the string a byte sequence decodes to.
\<close>

definition code_point :: "char \<Rightarrow> buffer \<Rightarrow> int" where
  "code_point b cs =
     foldl (\<lambda>a c. a * 64 + of_char c mod 64)
       (of_char b mod (if cs = [] then 128 else 2 ^ (6 - length cs))) cs"

definition utf16 :: "int \<Rightarrow> int list" where
  "utf16 cp =
     (if cp < 0x10000 then [cp]
      else [0xD800 + (cp - 0x10000) div 0x400, 0xDC00 + (cp - 0x10000) mod 0x400])"

fun code_units :: "nat \<Rightarrow> buffer \<Rightarrow> int list" where
  "code_units 0 bs = []"
| "code_units (Suc fuel) [] = []"
| "code_units (Suc fuel) (b # bs) =
     (case lead (of_char b) of
        None \<Rightarrow> 0xFFFD # code_units fuel bs
      | Some (lo, hi, n) \<Rightarrow>
          (case conts lo hi n bs of
             (True, k) \<Rightarrow> utf16 (code_point b (take k bs)) @ code_units fuel (drop k bs)
           | (False, k) \<Rightarrow> 0xFFFD # code_units fuel (drop k bs)))"

definition utf16_units :: "string \<Rightarrow> int list" where
  "utf16_units s = code_units (length s) s"

subsection \<open>Base64\<close>

definition b64_alphabet :: string where
  "b64_alphabet = ''ABCDEFGHIJKLMNOPQRSTUVWXYZabcdefghijklmnopqrstuvwxyz0123456789+/''"

definition b64 :: "nat \<Rightarrow> char" where
  "b64 n = b64_alphabet ! (n mod 64)"

text \<open>\<open>buf.toString('base64')\<close>: the standard alphabet, padded with \<open>=\<close>.\<close>

fun toString_base64 :: "buffer \<Rightarrow> string" where
  "toString_base64 (a # b # c # rest) =
     (let x = of_char a; y = of_char b; z = of_char c in
      [b64 (x div 4), b64 ((x mod 4) * 16 + y div 16), b64 ((y mod 16) * 4 + z div 64), b64 z]
      @ toString_base64 rest)"
| "toString_base64 [a, b] =
     (let x = of_char a; y = of_char b in
      [b64 (x div 4), b64 ((x mod 4) * 16 + y div 16), b64 ((y mod 16) * 4), CHR ''=''])"
| "toString_base64 [a] =
     (let x = of_char a in [b64 (x div 4), b64 ((x mod 4) * 16), CHR ''='', CHR ''=''])"
| "toString_base64 [] = []"

subsection \<open>JSON values\<close>

datatype json =
    JNull
  | JBool bool
  | JNum real
  | JStr string
  | JArr "json list"
  | JObj "(string \<times> json) list"

text \<open>
  The library functions the service calls but does not define: \<open>JSON.parse\<close> (\<open>None\<close>
  when it throws a SyntaxError), \<open>JSON.stringify(v, null, 2)\<close>, the SHA-256 digest in hex
  and the conversion of a number to a string. Every theorem holds for any such functions.
\<close>

record runtime =
  JSON_parse :: "string \<Rightarrow> json option"
  JSON_stringify :: "json \<Rightarrow> string"
  sha256_hex :: "buffer \<Rightarrow> string"
  Number_toString :: "real \<Rightarrow> string"

text \<open>
  Reading a property: on \<open>null\<close> it throws a TypeError (\<open>None\<close>); on an object it is the
  property's value, \<open>undefined\<close> (here \<open>JNull\<close>) when the object has no such key; the
  other values have none of the properties the service reads.
\<close>

definition get_prop :: "json \<Rightarrow> string \<Rightarrow> json option" where
  "get_prop v k =
     (case v of
        JNull \<Rightarrow> None
      | JObj kvs \<Rightarrow> Some (case map_of kvs k of None \<Rightarrow> JNull | Some x \<Rightarrow> x)
      | _ \<Rightarrow> Some JNull)"

fun truthy :: "json \<Rightarrow> bool" where
  "truthy JNull = False"
| "truthy (JBool b) = b"
| "truthy (JNum x) = (x \<noteq> 0)"
| "truthy (JStr s) = (s \<noteq> [])"
| "truthy (JArr xs) = True"
| "truthy (JObj kvs) = True"

text \<open>
  \<open>String(v)\<close>, \<open>None\<close> when it throws a TypeError. An array is joined with commas, \<open>null\<close>
  as the empty string. An object made by \<open>JSON.parse\<close> is converted by the inherited
  \<open>toString\<close>, unless it has a key \<open>toString\<close> of its own: the value of such a key is
  never a function, the \<open>valueOf\<close> tried next returns no primitive value either (an own
  \<open>valueOf\<close> is not a function, the inherited one returns the object), and the conversion
  throws.
\<close>

fun join :: "string \<Rightarrow> string list \<Rightarrow> string" where
  "join sep [] = []"
| "join sep [x] = x"
| "join sep (x # y # ys) = x @ sep @ join sep (y # ys)"

fun js_String :: "runtime \<Rightarrow> json \<Rightarrow> string option" where
  "js_String rt JNull = Some ''null''"
| "js_String rt (JBool b) = Some (if b then ''true'' else ''false'')"
| "js_String rt (JNum x) = Some (Number_toString rt x)"
| "js_String rt (JStr s) = Some s"
| "js_String rt (JArr xs) =
     map_option (join '','')
       (those (map (\<lambda>x. if x = JNull then Some [] else js_String rt x) xs))"
| "js_String rt (JObj kvs) =
     (if map_of kvs ''toString'' \<noteq> None then None else Some ''[object Object]'')"

text \<open>\<open>String(v || '')\<close>.\<close>

definition String_or_empty :: "runtime \<Rightarrow> json \<Rightarrow> string option" where
  "String_or_empty rt v = (if truthy v then js_String rt v else Some [])"

section \<open>The store directory\<close>

text \<open>
  The data directory is a list of entries, file name and content, in the order \<open>readdir\<close>
  reports them. Every operation on it is recorded in \<open>trace\<close>. An operation listed in
  \<open>faults\<close> fails with an I/O error whenever it is attempted, and leaves the directory as
  it was. The handlers only ever join the directory's path with a plain name, so a file
  is addressed by its name.
\<close>

datatype fsop =
    Mkdir
  | Readdir
  | OpenExcl fname
  | WriteChunk fname
  | WriteFile fname
  | Rename fname fname
  | Unlink fname
  | ReadFile fname
  | Access fname
  | Stat fname

record world =
  files :: "(fname \<times> buffer) list"
  faults :: "fsop list"
  trace :: "fsop list"

definition performs :: "fsop \<Rightarrow> world \<Rightarrow> world" where
  "performs x w = w\<lparr>trace := trace w @ [x]\<rparr>"

definition fails :: "fsop \<Rightarrow> world \<Rightarrow> bool" where
  "fails x w = (x \<in> set (faults w))"

definition present :: "fname \<Rightarrow> world \<Rightarrow> bool" where
  "present n w = (map_of (files w) n \<noteq> None)"

text \<open>\<open>fs.promises.mkdir(dir, {recursive: true})\<close>: no error when the directory exists.\<close>

definition fs_mkdir :: "world \<Rightarrow> bool \<times> world" where
  "fs_mkdir w = (\<not> fails Mkdir w, performs Mkdir w)"

definition fs_readdir :: "world \<Rightarrow> fname list option \<times> world" where
  "fs_readdir w =
     (if fails Readdir w then None else Some (map fst (files w)), performs Readdir w)"

text \<open>
  \<open>fs.createWriteStream(path, {flags: 'wx'})\<close> opens the file for writing and fails when
  the path exists.
\<close>

definition fs_open_excl :: "fname \<Rightarrow> world \<Rightarrow> bool \<times> world" where
  "fs_open_excl n w =
     (if fails (OpenExcl n) w \<or> present n w then (False, performs (OpenExcl n) w)
      else (True, (performs (OpenExcl n) w)\<lparr>files := files w @ [(n, [])]\<rparr>))"

definition fs_write_chunk :: "fname \<Rightarrow> buffer \<Rightarrow> world \<Rightarrow> bool \<times> world" where
  "fs_write_chunk n c w =
     (if fails (WriteChunk n) w then (False, performs (WriteChunk n) w)
      else (True, (performs (WriteChunk n) w)
              \<lparr>files := AList.update n
                  ((case map_of (files w) n of None \<Rightarrow> [] | Some old \<Rightarrow> old) @ c) (files w)\<rparr>))"

text \<open>\<open>fs.promises.writeFile(path, data)\<close>: the default flag \<open>'w'\<close> creates or truncates.\<close>

definition fs_write_file :: "fname \<Rightarrow> buffer \<Rightarrow> world \<Rightarrow> bool \<times> world" where
  "fs_write_file n c w =
     (if fails (WriteFile n) w then (False, performs (WriteFile n) w)
      else (True, (performs (WriteFile n) w)\<lparr>files := AList.update n c (files w)\<rparr>))"

text \<open>\<open>rename\<close> fails when the source is missing and replaces an existing target.\<close>

definition fs_rename :: "fname \<Rightarrow> fname \<Rightarrow> world \<Rightarrow> bool \<times> world" where
  "fs_rename a b w =
     (case (if fails (Rename a b) w then None else map_of (files w) a) of
        None \<Rightarrow> (False, performs (Rename a b) w)
      | Some c \<Rightarrow>
          (True, (performs (Rename a b) w)
             \<lparr>files := AList.update b c (AList.delete a (files w))\<rparr>))"

definition fs_unlink :: "fname \<Rightarrow> world \<Rightarrow> bool \<times> world" where
  "fs_unlink n w =
     (if fails (Unlink n) w \<or> \<not> present n w then (False, performs (Unlink n) w)
      else (True, (performs (Unlink n) w)\<lparr>files := AList.delete n (files w)\<rparr>))"

definition fs_read_file :: "fname \<Rightarrow> world \<Rightarrow> buffer option \<times> world" where
  "fs_read_file n w =
     (if fails (ReadFile n) w then None else map_of (files w) n, performs (ReadFile n) w)"

definition fs_access :: "fname \<Rightarrow> world \<Rightarrow> bool \<times> world" where
  "fs_access n w = (\<not> fails (Access n) w \<and> present n w, performs (Access n) w)"

definition fs_stat :: "fname \<Rightarrow> world \<Rightarrow> nat option \<times> world" where
  "fs_stat n w =
     (if fails (Stat n) w then None else map_option length (map_of (files w) n),
      performs (Stat n) w)"

section \<open>Configuration, requests and responses\<close>

text \<open>
  The values of config.js after \<open>envInt\<close>: \<open>token\<close> is \<open>STOCKHOOK_TOKEN\<close> trimmed,
  \<open>maxBody\<close>, \<open>previewLimit\<close> and \<open>maxRecords\<close> are integers of any sign.
\<close>

record config =
  token :: string
  maxBody :: int
  previewLimit :: int
  maxRecords :: int
  readTokenRequired :: bool

text \<open>
  A request: the token \<open>getProvidedToken\<close> finds, the headers the handlers read (\<open>None\<close>
  when absent), the \<open>id\<close> query parameter, and the body as the chunks the stream
  delivers. \<open>aborted\<close> says that the client disconnects after those chunks, so that the
  stream ends with an error. The body is written to disk while it arrives: \<open>file_steps\<close>
  is the number of steps (the open, then one write for each chunk) that the file stream
  has completed at the moment a pipeline fed by this request is torn down.
\<close>

record request =
  provided_token :: string
  content_length :: "string option"
  content_type :: "string option"
  user_agent :: "string option"
  remote_addr :: string
  pathname :: string
  query_id :: "string option"
  chunks :: "buffer list"
  aborted :: bool
  file_steps :: nat

text \<open>What the clock and the random source give one ingest.\<close>

record arrival =
  utcNowStamp :: string
  randomHex :: string
  utcNowIso :: string

text \<open>A response: status code, content type and body.\<close>

datatype response = Resp nat string string

definition nl :: string where
  "nl = [CHR 0x0A]"

definition sendText :: "nat \<Rightarrow> string \<Rightarrow> response" where
  "sendText code text = Resp code ''text/plain; charset=utf-8'' text"

definition sendHtml :: "nat \<Rightarrow> string \<Rightarrow> response" where
  "sendHtml code html = Resp code ''text/html; charset=utf-8'' html"

text \<open>
  An exception that leaves a handler is caught by \<open>createServer\<close>, which answers 500.
\<close>

definition internal_error :: response where
  "internal_error = sendText 500 (''internal server error'' @ nl)"

text \<open>\<open>requireToken\<close> of auth.js: \<open>None\<close> when the request may proceed.\<close>

definition requireToken :: "config \<Rightarrow> request \<Rightarrow> response option" where
  "requireToken cfg req =
     (if token cfg = [] then Some (sendText 500 (''server token not configured'' @ nl))
      else if provided_token req \<noteq> [] \<and> provided_token req = token cfg then None
      else Some (sendText 401 (''unauthorized'' @ nl)))"

section \<open>store.js\<close>

subsection \<open>writeBodyToFile\<close>

datatype err =
    PAYLOAD_TOO_LARGE
  | TOO_MUCH_DATA
  | INVALID_MAX_BYTES
  | IO_ERROR
  | PREMATURE_CLOSE

text \<open>
  The variables the transform closes over. \<open>hashed\<close> stands for the state of the hasher:
  the bytes passed to \<open>hasher.update\<close> so far, whose digest \<open>hasher.digest\<close> returns.
\<close>

record tap =
  written :: nat
  hashed :: buffer
  previewChunks :: "buffer list"
  previewBytes :: nat

definition tap0 :: tap where
  "tap0 = \<lparr>written = 0, hashed = [], previewChunks = [], previewBytes = 0\<rparr>"

text \<open>One call of \<open>transform(chunk, _encoding, callback)\<close>; \<open>Inl\<close> is \<open>callback(err)\<close>.\<close>

definition transform :: "int \<Rightarrow> nat option \<Rightarrow> int \<Rightarrow> tap \<Rightarrow> buffer \<Rightarrow> err + tap" where
  "transform maxBytes expectedLength previewMax st chunk =
     (let st1 = st\<lparr>written := written st + length chunk\<rparr> in
      if int (written st1) > maxBytes then Inl PAYLOAD_TOO_LARGE
      else if (case expectedLength of None \<Rightarrow> False | Some e \<Rightarrow> written st1 > e)
        then Inl TOO_MUCH_DATA
      else
        (let st2 = st1\<lparr>hashed := hashed st1 @ chunk\<rparr> in
         if int (previewBytes st2) < previewMax then
           (let n = min (nat (previewMax - int (previewBytes st2))) (length chunk) in
            Inr (st2\<lparr>previewChunks := previewChunks st2 @ [take n chunk],
                      previewBytes := previewBytes st2 + n\<rparr>))
         else Inr st2))"

text \<open>
  The readable side of \<open>pipeline(req, tap, file)\<close>: the chunks go through the transform
  one by one until one is refused. \<open>feed\<close> returns the chunks the transform has passed
  on, in order, and how the run ended.
\<close>

fun feed :: "int \<Rightarrow> nat option \<Rightarrow> int \<Rightarrow> buffer list \<Rightarrow> tap \<Rightarrow> buffer list \<times> (err + tap)" where
  "feed maxBytes expectedLength previewMax [] st = ([], Inr st)"
| "feed maxBytes expectedLength previewMax (chunk # rest) st =
     (case transform maxBytes expectedLength previewMax st chunk of
        Inl e \<Rightarrow> ([], Inl e)
      | Inr st1 \<Rightarrow>
          (case feed maxBytes expectedLength previewMax rest st1 of
             (passed, r) \<Rightarrow> (chunk # passed, r)))"

text \<open>The file stream writes chunks one after the other and stops at the first error.\<close>

fun write_chunks :: "fname \<Rightarrow> buffer list \<Rightarrow> world \<Rightarrow> bool \<times> world" where
  "write_chunks out [] w = (True, w)"
| "write_chunks out (chunk # rest) w =
     (case fs_write_chunk out chunk w of
        (False, w1) \<Rightarrow> (False, w1)
      | (True, w1) \<Rightarrow> write_chunks out rest w1)"

text \<open>
  \<open>pipeline(req, tap, fs.createWriteStream(outPath, {flags: 'wx'}))\<close>. The file stream
  works concurrently with the transform: it opens the file, then writes the chunks passed
  on to it. When the request ends normally, the pipeline waits for the file stream to
  finish, so the file is opened and every chunk is written. When a chunk is refused, or
  the client disconnects, the pipeline is torn down: the file stream is destroyed with
  the \<open>file_steps\<close> steps it has completed by then, and the chunks it has not written are
  dropped. The open has always been started and runs to its end, so the file is
  created even when the pipeline is torn down first. The pipeline rejects with the first
  error that occurred: the error of a step the file stream had completed, the error
  that tore the pipeline down otherwise.
\<close>

definition pipeline ::
  "request \<Rightarrow> int \<Rightarrow> nat option \<Rightarrow> int \<Rightarrow> fname \<Rightarrow> world \<Rightarrow> (err + tap) \<times> world"
where
  "pipeline req maxBytes expectedLength previewMax out w =
     (case feed maxBytes expectedLength previewMax (chunks req) tap0 of
        (passed, r) \<Rightarrow>
          (case (case r of
                   Inl e \<Rightarrow> Inl e
                 | Inr st \<Rightarrow> if aborted req then Inl PREMATURE_CLOSE else Inr st) of
             Inr st \<Rightarrow>
               (case fs_open_excl out w of
                  (False, w1) \<Rightarrow> (Inl IO_ERROR, w1)
                | (True, w1) \<Rightarrow>
                    (case write_chunks out passed w1 of
                       (False, w2) \<Rightarrow> (Inl IO_ERROR, w2)
                     | (True, w2) \<Rightarrow> (Inr st, w2)))
           | Inl e \<Rightarrow>
               (case fs_open_excl out w of
                  (False, w1) \<Rightarrow> (Inl (if file_steps req = 0 then e else IO_ERROR), w1)
                | (True, w1) \<Rightarrow>
                    (case write_chunks out (take (file_steps req - 1) passed) w1 of
                       (False, w2) \<Rightarrow> (Inl IO_ERROR, w2)
                     | (True, w2) \<Rightarrow> (Inl e, w2)))))"

text \<open>\<open>Buffer.concat(list, totalLength)\<close>: cut or zero-filled to \<open>totalLength\<close>.\<close>

definition Buffer_concat :: "buffer list \<Rightarrow> nat \<Rightarrow> buffer" where
  "Buffer_concat bufs n = take n (concat bufs @ replicate n (CHR 0x00))"

record write_result =
  res_written :: nat
  res_bodySha256 :: string
  res_preview :: buffer

definition writeBodyToFile ::
  "config \<Rightarrow> runtime \<Rightarrow> request \<Rightarrow> fname \<Rightarrow> int \<Rightarrow> nat option \<Rightarrow> world
     \<Rightarrow> (err + write_result) \<times> world"
where
  "writeBodyToFile cfg rt req outPath maxBytes expectedLength w =
     (if maxBytes \<le> 0 then (Inl INVALID_MAX_BYTES, w)
      else
        (case pipeline req maxBytes expectedLength (previewLimit cfg) outPath w of
           (Inl e, w1) \<Rightarrow> (Inl e, w1)
         | (Inr st, w1) \<Rightarrow>
             (Inr \<lparr>res_written = written st,
                   res_bodySha256 = sha256_hex rt (hashed st),
                   res_preview = Buffer_concat (previewChunks st) (previewBytes st)\<rparr>,
              w1)))"

subsection \<open>enforceRetention\<close>

definition backslash :: string where
  "backslash = [CHR 0x5C]"

text \<open>
  One round of the loop over the stale records: read the document for its \<open>body_file\<close>
  (the empty name when reading, parsing or the conversion to a string throws), unlink the
  document, then unlink the body when its name passes the check.
\<close>

definition bodyName_of :: "runtime \<Rightarrow> buffer option \<Rightarrow> string" where
  "bodyName_of rt content =
     (case content of
        None \<Rightarrow> []
      | Some buf \<Rightarrow>
          (case JSON_parse rt (toString_utf8 buf) of
             None \<Rightarrow> []
           | Some record \<Rightarrow>
               (case get_prop record ''body_file'' of
                  None \<Rightarrow> []
                | Some v \<Rightarrow>
                    (case String_or_empty rt v of None \<Rightarrow> [] | Some s \<Rightarrow> trim s))))"

definition evict :: "runtime \<Rightarrow> fname \<Rightarrow> world \<Rightarrow> world" where
  "evict rt recordName w =
     (case fs_read_file recordName w of
        (content, w1) \<Rightarrow>
          (let bodyName = bodyName_of rt content;
               w2 = snd (fs_unlink recordName w1)
           in if bodyName = [] then w2
              else if str_includes bodyName ''..'' \<or> str_includes bodyName ''/''
                      \<or> str_includes bodyName backslash then w2
              else snd (fs_unlink bodyName w2)))"

fun evict_all :: "runtime \<Rightarrow> fname list \<Rightarrow> world \<Rightarrow> world" where
  "evict_all rt [] w = w"
| "evict_all rt (recordName # rest) w = evict_all rt rest (evict rt recordName w)"

text \<open>
  \<open>names.filter((n) => n.endsWith('.json'))\<close>, then \<open>names.sort().reverse()\<close>. Without a
  comparison function \<open>sort\<close> orders strings by their UTF-16 code units, and it is stable.
\<close>

definition newest_first :: "fname list \<Rightarrow> fname list" where
  "newest_first names = rev (sort_key utf16_units (filter (\<lambda>n. endsWith n ''.json'') names))"

definition enforceRetention :: "config \<Rightarrow> runtime \<Rightarrow> world \<Rightarrow> world" where
  "enforceRetention cfg rt w =
     (let keep = maxRecords cfg in
      if keep \<le> 0 then w
      else
        (case fs_readdir w of
           (None, w1) \<Rightarrow> w1
         | (Some entries, w1) \<Rightarrow> evict_all rt (drop (nat keep) (newest_first entries)) w1))"

section \<open>stockhook.js\<close>

definition invalidId :: "string \<Rightarrow> bool" where
  "invalidId name =
     (let s = trim name in
      if s = [] then True
      else if str_includes s ''..'' then True
      else if str_includes s ''/'' \<or> str_includes s backslash then True
      else False)"

subsection \<open>handlePostWebhook\<close>

definition is_digits :: "string \<Rightarrow> bool" where
  "is_digits s = (s \<noteq> [] \<and> list_all (\<lambda>c. CHR ''0'' \<le> c \<and> c \<le> CHR ''9'') s)"

definition parseInt :: "string \<Rightarrow> nat" where
  "parseInt s = foldl (\<lambda>a c. 10 * a + (of_char c - 48)) 0 s"

definition octet_stream :: string where
  "octet_stream = ''application/octet-stream''"

definition contentType_of :: "request \<Rightarrow> string" where
  "contentType_of req =
     (let ctRaw = (case content_type req of
                     None \<Rightarrow> octet_stream
                   | Some h \<Rightarrow> if h = [] then octet_stream else h);
          t = trim (takeWhile (\<lambda>c. c \<noteq> CHR '';'') ctRaw)
      in if t = [] then octet_stream else t)"

text \<open>
  Lines 43 to 67: the token and the \<open>Content-Length\<close> header. \<open>Inr\<close> carries
  \<open>expectedLength\<close>.
\<close>

definition check_headers :: "config \<Rightarrow> request \<Rightarrow> response + nat option" where
  "check_headers cfg req =
     (case requireToken cfg req of
        Some r \<Rightarrow> Inl r
      | None \<Rightarrow>
          (case content_length req of
             None \<Rightarrow> Inr None
           | Some clHeader \<Rightarrow>
               (let s = trim clHeader in
                if \<not> is_digits s then Inl (sendText 400 (''invalid content-length'' @ nl))
                else
                  (let expectedLength = parseInt s in
                   if expectedLength \<le> 0 then Inl (sendText 400 (''empty body'' @ nl))
                   else if int expectedLength > maxBody cfg
                     then Inl (sendText 413 (''payload too large'' @ nl))
                   else Inr (Some expectedLength)))))"

text \<open>
  Lines 85 to 121: the body is streamed to the temporary file; on an error, an empty body
  or a length that differs from the declared one, the temporary file is unlinked (errors
  of the unlink ignored) and the request is answered.
\<close>

definition receive_body ::
  "config \<Rightarrow> runtime \<Rightarrow> request \<Rightarrow> fname \<Rightarrow> nat option \<Rightarrow> world
     \<Rightarrow> (response + write_result) \<times> world"
where
  "receive_body cfg rt req tmpBodyPath expectedLength w =
     (case writeBodyToFile cfg rt req tmpBodyPath (maxBody cfg) expectedLength w of
        (Inl e, w1) \<Rightarrow>
          (Inl (if e = PAYLOAD_TOO_LARGE then sendText 413 (''payload too large'' @ nl)
                else sendText 400 (''incomplete body'' @ nl)),
           snd (fs_unlink tmpBodyPath w1))
      | (Inr writeResult, w1) \<Rightarrow>
          if res_written writeResult \<le> 0
            then (Inl (sendText 400 (''empty body'' @ nl)), snd (fs_unlink tmpBodyPath w1))
          else if (case expectedLength of None \<Rightarrow> False
                   | Some e \<Rightarrow> res_written writeResult \<noteq> e)
            then (Inl (sendText 400 (''incomplete body'' @ nl)), snd (fs_unlink tmpBodyPath w1))
          else (Inr writeResult, w1))"

text \<open>Lines 125 to 143: what is decoded from the preview.\<close>

record decoded =
  decodedBody :: json
  bodyText :: "string option"
  bodyB64 :: "string option"

definition sniff :: "runtime \<Rightarrow> string \<Rightarrow> buffer \<Rightarrow> decoded" where
  "sniff rt contentType preview =
     (if (contentType = ''application/json'' \<or> contentType = ''text/json'') \<and> preview \<noteq> [] then
        (case (case decodeUtf8Strict preview of None \<Rightarrow> None | Some s \<Rightarrow> JSON_parse rt s) of
           Some v \<Rightarrow> \<lparr>decodedBody = v, bodyText = None, bodyB64 = None\<rparr>
         | None \<Rightarrow>
             \<lparr>decodedBody = JNull, bodyText = Some (toString_utf8 preview), bodyB64 = None\<rparr>)
      else if preview \<noteq> [] then
        (case decodeUtf8Strict preview of
           Some s \<Rightarrow> \<lparr>decodedBody = JNull, bodyText = Some s, bodyB64 = None\<rparr>
         | None \<Rightarrow>
             \<lparr>decodedBody = JNull, bodyText = None, bodyB64 = Some (toString_base64 preview)\<rparr>)
      else \<lparr>decodedBody = JNull, bodyText = None, bodyB64 = None\<rparr>)"

definition nullable :: "string option \<Rightarrow> json" where
  "nullable x = (case x of None \<Rightarrow> JNull | Some s \<Rightarrow> JStr s)"

text \<open>Lines 145 to 158: the record document.\<close>

definition build_record ::
  "runtime \<Rightarrow> arrival \<Rightarrow> request \<Rightarrow> string \<Rightarrow> fname \<Rightarrow> write_result \<Rightarrow> json"
where
  "build_record rt a req contentType bodyName writeResult =
     (let preview = res_preview writeResult;
          d = sniff rt contentType preview
      in JObj
        [(''received_at'', JStr (utcNowIso a)),
         (''remote_addr'', JStr (remote_addr req)),
         (''path'', JStr (pathname req)),
         (''content_type'', JStr contentType),
         (''user_agent'', JStr (case user_agent req of None \<Rightarrow> [] | Some u \<Rightarrow> u)),
         (''body_file'', JStr bodyName),
         (''body_size'', JNum (real (res_written writeResult))),
         (''body_sha256'', JStr (res_bodySha256 writeResult)),
         (''preview_truncated'', JBool (res_written writeResult > length preview)),
         (''body_json'', decodedBody d),
         (''body_text'', nullable (bodyText d)),
         (''body_b64'', nullable (bodyB64 d))])"

definition recordName_of :: "arrival \<Rightarrow> fname" where
  "recordName_of a = utcNowStamp a @ ''-'' @ randomHex a @ ''.json''"

definition bodyName_for :: "arrival \<Rightarrow> fname" where
  "bodyName_for a = utcNowStamp a @ ''-'' @ randomHex a @ ''.body''"

text \<open>
  Lines 42 to 161: everything before the retention pass. \<open>Inr\<close> carries the name of the
  record that was published.
\<close>

definition ingest ::
  "config \<Rightarrow> runtime \<Rightarrow> arrival \<Rightarrow> request \<Rightarrow> world \<Rightarrow> (response + fname) \<times> world"
where
  "ingest cfg rt a req w =
     (case check_headers cfg req of
        Inl r \<Rightarrow> (Inl r, w)
      | Inr expectedLength \<Rightarrow>
          (let contentType = contentType_of req;
               recordName = recordName_of a;
               bodyName = bodyName_for a;
               tmpBodyPath = bodyName @ ''.tmp'';
               tmpRecordPath = recordName @ ''.tmp''
           in
             case fs_mkdir w of
               (False, w0) \<Rightarrow> (Inl internal_error, w0)
             | (True, w0) \<Rightarrow>
                 (case receive_body cfg rt req tmpBodyPath expectedLength w0 of
                    (Inl r, w1) \<Rightarrow> (Inl r, w1)
                  | (Inr writeResult, w1) \<Rightarrow>
                      (case fs_rename tmpBodyPath bodyName w1 of
                         (False, w2) \<Rightarrow> (Inl internal_error, w2)
                       | (True, w2) \<Rightarrow>
                           (case fs_write_file tmpRecordPath
                                   (JSON_stringify rt
                                      (build_record rt a req contentType bodyName writeResult))
                                   w2 of
                              (False, w3) \<Rightarrow> (Inl internal_error, w3)
                            | (True, w3) \<Rightarrow>
                                (case fs_rename tmpRecordPath recordName w3 of
                                   (False, w4) \<Rightarrow> (Inl internal_error, w4)
                                 | (True, w4) \<Rightarrow> (Inr recordName, w4)))))))"

definition handlePostWebhook ::
  "config \<Rightarrow> runtime \<Rightarrow> arrival \<Rightarrow> request \<Rightarrow> world \<Rightarrow> response \<times> world"
where
  "handlePostWebhook cfg rt a req w =
     (case ingest cfg rt a req w of
        (Inl r, w1) \<Rightarrow> (r, w1)
      | (Inr recordName, w1) \<Rightarrow>
          (sendText 200 (''ok '' @ recordName @ nl), enforceRetention cfg rt w1))"

subsection \<open>The read handlers\<close>

record index_row =
  row_name :: fname
  row_when :: string
  row_size :: string
  row_title :: string

text \<open>
  The rendering layer (render/pages.js, render/utils.js), which the handlers call and
  the store does not depend on: \<open>payloadTitle\<close> is the title \<open>extractPayloadTitle\<close> finds
  for a payload and the text \<open>extractPayloadText\<close> selects from it. \<open>renderViewPage\<close>
  reads the body file itself.
\<close>

record renderer =
  formatCnDate :: "string \<Rightarrow> string"
  formatBytes :: "nat \<Rightarrow> string"
  payloadTitle :: "json \<Rightarrow> string"
  renderIndexPage :: "index_row list \<Rightarrow> string"
  renderViewPage :: "fname \<Rightarrow> json \<Rightarrow> world \<Rightarrow> string \<times> world"

text \<open>The default title of a row, U+FF08 U+65E0 U+6807 U+9898 U+FF09 in UTF-8.\<close>

definition untitled :: string where
  "untitled =
     [CHR 0xEF, CHR 0xBC, CHR 0x88, CHR 0xE6, CHR 0x97, CHR 0xA0, CHR 0xE6, CHR 0xA0, CHR 0x87,
      CHR 0xE9, CHR 0xA2, CHR 0x98, CHR 0xEF, CHR 0xBC, CHR 0x89]"

text \<open>
  Lines 212 to 222, the body of the \<open>try\<close>: \<open>None\<close> when it throws before \<open>receivedAt\<close>
  is assigned, which leaves both defaults in place. When the conversion of \<open>body_text\<close>
  throws, the date has been assigned and the title keeps its default.
\<close>

definition describe_record :: "runtime \<Rightarrow> renderer \<Rightarrow> buffer option \<Rightarrow> (string \<times> string) option" where
  "describe_record rt rd content =
     (case content of
        None \<Rightarrow> None
      | Some buf \<Rightarrow>
          (case JSON_parse rt (toString_utf8 buf) of
             None \<Rightarrow> None
           | Some record \<Rightarrow>
               (case get_prop record ''received_at'' of
                  None \<Rightarrow> None
                | Some ra \<Rightarrow>
                    (case String_or_empty rt ra of
                       None \<Rightarrow> None
                     | Some s \<Rightarrow>
                         (let receivedAt = formatCnDate rd s;
                              body_json = (case get_prop record ''body_json'' of
                                             None \<Rightarrow> JNull | Some v \<Rightarrow> v);
                              body_text = (case get_prop record ''body_text'' of
                                             None \<Rightarrow> JNull | Some v \<Rightarrow> v)
                          in case (if body_json = JNull \<and> body_text \<noteq> JNull
                                   then map_option JStr (String_or_empty rt body_text)
                                   else Some body_json) of
                               None \<Rightarrow> Some (receivedAt, untitled)
                             | Some payload \<Rightarrow>
                                 (let t = payloadTitle rd payload
                                  in Some (receivedAt, if t \<noteq> [] then t else untitled)))))))"

text \<open>One round of the loop of lines 201 to 225.\<close>

definition index_row_of :: "runtime \<Rightarrow> renderer \<Rightarrow> fname \<Rightarrow> world \<Rightarrow> index_row \<times> world" where
  "index_row_of rt rd name w =
     (case fs_stat name w of
        (st, w1) \<Rightarrow>
          (case fs_read_file name w1 of
             (content, w2) \<Rightarrow>
               (let sz = (case st of None \<Rightarrow> 0 | Some n \<Rightarrow> n);
                    d = (case describe_record rt rd content of
                           None \<Rightarrow> ([], untitled) | Some x \<Rightarrow> x)
                in (\<lparr>row_name = name, row_when = fst d, row_size = formatBytes rd sz,
                     row_title = snd d\<rparr>, w2))))"

fun index_rows :: "runtime \<Rightarrow> renderer \<Rightarrow> fname list \<Rightarrow> world \<Rightarrow> index_row list \<times> world" where
  "index_rows rt rd [] w = ([], w)"
| "index_rows rt rd (name # rest) w =
     (case index_row_of rt rd name w of
        (r, w1) \<Rightarrow> (case index_rows rt rd rest w1 of (rs, w2) \<Rightarrow> (r # rs, w2)))"

text \<open>
  Lines 188 to 225: the \<open>records\<close> array that \<open>handleGetIndex\<close> hands to the page
  renderer, \<open>None\<close> when \<open>mkdir\<close> throws.
\<close>

definition list_records :: "runtime \<Rightarrow> renderer \<Rightarrow> world \<Rightarrow> index_row list option \<times> world" where
  "list_records rt rd w =
     (case fs_mkdir w of
        (False, w0) \<Rightarrow> (None, w0)
      | (True, w0) \<Rightarrow>
          (case fs_readdir w0 of
             (entries, w1) \<Rightarrow>
               (let names = take 50 (newest_first (case entries of None \<Rightarrow> [] | Some ns \<Rightarrow> ns))
                in case index_rows rt rd names w1 of (rows, w2) \<Rightarrow> (Some rows, w2))))"

definition handleGetIndex ::
  "config \<Rightarrow> runtime \<Rightarrow> renderer \<Rightarrow> request \<Rightarrow> world \<Rightarrow> response \<times> world"
where
  "handleGetIndex cfg rt rd req w =
     (case (if readTokenRequired cfg then requireToken cfg req else None) of
        Some r \<Rightarrow> (r, w)
      | None \<Rightarrow>
          (case list_records rt rd w of
             (None, w1) \<Rightarrow> (internal_error, w1)
           | (Some rows, w1) \<Rightarrow> (sendHtml 200 (renderIndexPage rd rows), w1)))"

text \<open>
  Lines 233 to 254 and 262 to 283, which \<open>handleGetView\<close> and \<open>handleGetRaw\<close> share: the
  \<open>id\<close> is checked, then the record is looked up and parsed. \<open>Inr\<close> carries the name and
  the parsed record.
\<close>

definition load_record ::
  "config \<Rightarrow> runtime \<Rightarrow> request \<Rightarrow> world \<Rightarrow> (response + fname \<times> json) \<times> world"
where
  "load_record cfg rt req w =
     (case (if readTokenRequired cfg then requireToken cfg req else None) of
        Some r \<Rightarrow> (Inl r, w)
      | None \<Rightarrow>
          (let name = trim (case query_id req of None \<Rightarrow> [] | Some s \<Rightarrow> s) in
           if invalidId name then (Inl (sendText 400 (''invalid id'' @ nl)), w)
           else
             (case fs_access name w of
                (False, w1) \<Rightarrow> (Inl (sendText 404 (''not found'' @ nl)), w1)
              | (True, w1) \<Rightarrow>
                  (case fs_read_file name w1 of
                     (content, w2) \<Rightarrow>
                       (case (case content of
                                None \<Rightarrow> None
                              | Some buf \<Rightarrow> JSON_parse rt (toString_utf8 buf)) of
                          None \<Rightarrow> (Inl (sendText 500 (''failed to read record'' @ nl)), w2)
                        | Some record \<Rightarrow> (Inr (name, record), w2))))))"

definition handleGetView ::
  "config \<Rightarrow> runtime \<Rightarrow> renderer \<Rightarrow> request \<Rightarrow> world \<Rightarrow> response \<times> world"
where
  "handleGetView cfg rt rd req w =
     (case load_record cfg rt req w of
        (Inl r, w1) \<Rightarrow> (r, w1)
      | (Inr (name, record), w1) \<Rightarrow>
          (case renderViewPage rd name record w1 of (html, w2) \<Rightarrow> (sendHtml 200 html, w2)))"

text \<open>
  \<open>handleGetRaw\<close>, lines 285 to 313. Reading \<open>body_file\<close> of a record that is \<open>null\<close>
  throws, and so does a conversion to a string that fails; the exception leaves the
  handler. The body is streamed to the response; a read that fails ends it early.
\<close>

definition handleGetRaw :: "config \<Rightarrow> runtime \<Rightarrow> request \<Rightarrow> world \<Rightarrow> response \<times> world" where
  "handleGetRaw cfg rt req w =
     (case load_record cfg rt req w of
        (Inl r, w1) \<Rightarrow> (r, w1)
      | (Inr (name, record), w1) \<Rightarrow>
          (case Option.bind (get_prop record ''body_file'') (String_or_empty rt) of
             None \<Rightarrow> (internal_error, w1)
           | Some s \<Rightarrow>
               (let bodyName = trim s in
                if bodyName = [] \<or> str_includes bodyName ''..'' \<or> str_includes bodyName ''/''
                   \<or> str_includes bodyName backslash
                  then (sendText 404 (''no body'' @ nl), w1)
                else
                  (case fs_access bodyName w1 of
                     (False, w2) \<Rightarrow> (sendText 404 (''no body'' @ nl), w2)
                   | (True, w2) \<Rightarrow>
                       (case fs_stat bodyName w2 of
                          (sz, w3) \<Rightarrow>
                            (let ct = (case get_prop record ''content_type'' of
                                         None \<Rightarrow> JNull | Some c \<Rightarrow> c)
                             in case (if truthy ct then js_String rt ct else Some octet_stream) of
                                  None \<Rightarrow> (internal_error, w3)
                                | Some c0 \<Rightarrow>
                                    (let ctype = (if trim c0 = [] then octet_stream else trim c0)
                                     in case fs_read_file bodyName w3 of
                                          (content, w4) \<Rightarrow>
                                            (Resp 200
                                               (if startsWith ctype ''text/''
                                                then ctype @ ''; charset=utf-8'' else ctype)
                                               (case content of None \<Rightarrow> [] | Some c \<Rightarrow> c),
                                             w4))))))))"

section \<open>Sequences of ingests\<close>

text \<open>
  Requests handled one after the other, each with what the clock and the random source
  gave it; the responses are returned in the same order.
\<close>

fun ingest_all ::
  "config \<Rightarrow> runtime \<Rightarrow> (arrival \<times> request) list \<Rightarrow> world \<Rightarrow> response list \<times> world"
where
  "ingest_all cfg rt [] w = ([], w)"
| "ingest_all cfg rt ((a, req) # rest) w =
     (case handlePostWebhook cfg rt a req w of
        (r, w1) \<Rightarrow> (case ingest_all cfg rt rest w1 of (rs, w2) \<Rightarrow> (r # rs, w2)))"

text \<open>
  The record documents of the directory, newest first: the list that the retention pass
  and the listing both compute from \<open>readdir\<close> before they cut it, and so the records a
  listing can show.
\<close>

definition listable :: "world \<Rightarrow> fname list" where
  "listable w = newest_first (map fst (files w))"

section \<open>A runtime and a renderer for the examples\<close>

text \<open>
  The theorems below hold for every runtime and every renderer. The examples need one of
  each to compute with. This runtime writes a record document as the line
  \<open>body_file=NAME\<close>, the one field store.js reads back, and parses such a line back
  into an object with that field; any other text does not parse. Its digest is the
  base64 text of the bytes.
\<close>

definition example_parse :: "string \<Rightarrow> json option" where
  "example_parse s =
     (if prefix ''body_file='' s then Some (JObj [(''body_file'', JStr (drop 10 s))])
      else None)"

definition example_stringify :: "json \<Rightarrow> string" where
  "example_stringify v =
     (case get_prop v ''body_file'' of
        Some (JStr s) \<Rightarrow> ''body_file='' @ s
      | _ \<Rightarrow> ''?'')"

definition example_runtime :: runtime where
  "example_runtime =
     \<lparr>JSON_parse = example_parse, JSON_stringify = example_stringify,
      sha256_hex = toString_base64, Number_toString = (\<lambda>x. ''0'')\<rparr>"

definition example_renderer :: renderer where
  "example_renderer =
     \<lparr>formatCnDate = (\<lambda>s. s), formatBytes = (\<lambda>n. replicate n (CHR ''*'')),
      payloadTitle = (\<lambda>v. ''payload''),
      renderIndexPage = (\<lambda>rows. concat (map row_name rows)),
      renderViewPage = (\<lambda>name record w. (name, w))\<rparr>"

definition example_config :: config where
  "example_config =
     \<lparr>token = ''secret'', maxBody = 4, previewLimit = 2, maxRecords = 1,
      readTokenRequired = False\<rparr>"

text \<open>The same configuration with \<open>STOCKHOOK_MAX_BODY=0\<close>.\<close>

definition zero_limit_config :: config where
  "zero_limit_config = example_config\<lparr>maxBody := 0\<rparr>"

definition empty_world :: world where
  "empty_world = \<lparr>files = [], faults = [], trace = []\<rparr>"

text \<open>A request that posts the given chunks with the right token and no headers.\<close>

definition post :: "buffer list \<Rightarrow> request" where
  "post cs =
     \<lparr>provided_token = ''secret'', content_length = None, content_type = None,
      user_agent = None, remote_addr = [], pathname = ''/webhook'', query_id = None,
      chunks = cs, aborted = False, file_steps = 0\<rparr>"

text \<open>A request for \<open>/view\<close> or \<open>/raw\<close> with the given \<open>id\<close> and no token.\<close>

definition get_request :: "string \<Rightarrow> request" where
  "get_request i =
     \<lparr>provided_token = [], content_length = None, content_type = None, user_agent = None,
      remote_addr = [], pathname = ''/view'', query_id = Some i, chunks = [], aborted = False,
      file_steps = 0\<rparr>"

definition arrival1 :: arrival where
  "arrival1 =
     \<lparr>utcNowStamp = ''20260129T061800Z'', randomHex = ''ffffffffffff'',
      utcNowIso = ''2026-01-29T06:18:00+00:00''\<rparr>"

definition arrival2 :: arrival where
  "arrival2 =
     \<lparr>utcNowStamp = ''20260129T061800Z'', randomHex = ''000000000000'',
      utcNowIso = ''2026-01-29T06:18:00+00:00''\<rparr>"

definition arrival3 :: arrival where
  "arrival3 =
     \<lparr>utcNowStamp = ''20260129T061801Z'', randomHex = ''000000000000'',
      utcNowIso = ''2026-01-29T06:18:01+00:00''\<rparr>"

text \<open>
  A directory with two records, the older of which names a body outside the directory.
\<close>

definition hostile_world :: world where
  "hostile_world =
     \<lparr>files = [(''a.json'', ''body_file=../x.body''), (''b.json'', ''body_file=b.body''),
               (''b.body'', ''abc'')],
      faults = [], trace = []\<rparr>"



text \<open>
  Three directories for the example request of \<open>arrival1\<close>: one where writing the record's
  temporary file fails, one that already holds a file under the record's temporary name,
  and one that already holds a file under the body's temporary name.
\<close>

definition failing_disk :: world where
  "failing_disk =
     \<lparr>files = [], faults = [WriteFile ''20260129T061800Z-ffffffffffff.json.tmp''], trace = []\<rparr>"

definition leftover_world :: world where
  "leftover_world =
     \<lparr>files = [(''20260129T061800Z-ffffffffffff.json.tmp'', ''body_file=other.body'')],
      faults = [], trace = []\<rparr>"

definition colliding_world :: world where
  "colliding_world =
     \<lparr>files = [(''20260129T061800Z-ffffffffffff.body.tmp'', ''other'')],
      faults = [], trace = []\<rparr>"

section \<open>Predicates used in the statements\<close>

text \<open>
  What holds of the transform's variables between two chunks: \<open>written\<close> counts the bytes
  hashed, the preview chunks are the first \<open>previewLimit\<close> bytes of them, and
  \<open>previewBytes\<close> is their number.
\<close>

definition tap_inv :: "int \<Rightarrow> tap \<Rightarrow> bool" where
  "tap_inv P st =
     (written st = length (hashed st)
      \<and> concat (previewChunks st) = take (nat P) (hashed st)
      \<and> previewBytes st = min (nat P) (length (hashed st)))"

text \<open>
  The bytes a request sends, and the record document an accepted request is stored as:
  the one \<open>build_record\<close> makes from the whole body's length and digest and from the
  first \<open>previewLimit\<close> bytes.
\<close>

definition body_of :: "request \<Rightarrow> buffer" where
  "body_of req = concat (chunks req)"

definition written_record :: "config \<Rightarrow> runtime \<Rightarrow> arrival \<Rightarrow> request \<Rightarrow> json" where
  "written_record cfg rt a req =
     build_record rt a req (contentType_of req) (bodyName_for a)
       \<lparr>res_written = length (body_of req),
        res_bodySha256 = sha256_hex rt (body_of req),
        res_preview = take (nat (previewLimit cfg)) (body_of req)\<rparr>"

text \<open>
  The chunks a pipeline writes before the limit is passed: the longest prefix of the
  chunks whose sizes add up to at most the budget.
\<close>

fun accepted_chunks :: "nat \<Rightarrow> buffer list \<Rightarrow> buffer list" where
  "accepted_chunks budget [] = []"
| "accepted_chunks budget (c # cs) =
     (if length c \<le> budget then c # accepted_chunks (budget - length c) cs else [])"

text \<open>A name that passes the check both \<open>enforceRetention\<close> and \<open>handleGetRaw\<close> make.\<close>

definition plain_name :: "string \<Rightarrow> bool" where
  "plain_name b =
     (b \<noteq> [] \<and> \<not> str_includes b ''..'' \<and> \<not> str_includes b ''/''
      \<and> \<not> str_includes b backslash)"

text \<open>The records a retention pass evicts: those after the first \<open>maxRecords\<close>, newest first.\<close>

definition stale_records :: "config \<Rightarrow> world \<Rightarrow> fname list" where
  "stale_records cfg w =
     (if maxRecords cfg \<le> 0 \<or> fails Readdir w then []
      else drop (nat (maxRecords cfg)) (listable w))"

text \<open>
  The listing \<open>ys\<close>, newest first, with the name \<open>x\<close> put in at its place: before the
  first name that sorts below it.
\<close>

fun listed_with :: "fname \<Rightarrow> fname list \<Rightarrow> fname list" where
  "listed_with x [] = [x]"
| "listed_with x (y # ys) =
     (if utf16_units y < utf16_units x then x # y # ys else y # listed_with x ys)"

text \<open>The bytes that occur in the encodings of white space.\<close>

definition ws_bytes :: "char set" where
  "ws_bytes = \<Union> (set ` set ws_tokens)"

text \<open>
  The names of the record documents in the directory, as \<open>readdir\<close> gives them. A
  directory's documents are safe when none of them, read by \<open>enforceRetention\<close>, names
  a record document as its body. A response is accepted when its status is 200. A
  runtime reads a request's document back when parsing what it serialised gives the
  request's own body name.
\<close>

definition is_record :: "fname \<Rightarrow> bool" where
  "is_record n = endsWith n ''.json''"

definition record_names :: "world \<Rightarrow> fname list" where
  "record_names w = filter is_record (map fst (files w))"

definition safe_docs :: "runtime \<Rightarrow> world \<Rightarrow> bool" where
  "safe_docs rt w =
     (\<forall>(n, c) \<in> set (files w). is_record n \<longrightarrow> \<not> is_record (bodyName_of rt (Some c)))"

definition accepted :: "response \<Rightarrow> bool" where
  "accepted r = (case r of Resp code ctype body \<Rightarrow> code = 200)"

definition reads_own_body :: "config \<Rightarrow> runtime \<Rightarrow> arrival \<Rightarrow> request \<Rightarrow> bool" where
  "reads_own_body cfg rt a req =
     (bodyName_of rt (Some (JSON_stringify rt (written_record cfg rt a req)))
        = trim (bodyName_for a))"

section \<open>Decoding the preview\<close>

text \<open>A decoding that meets no error returns its input: strict and lenient agree there.\<close>

lemma utf8_replace_clean:
  "utf8_replace n bs = (False, out) \<Longrightarrow> length bs \<le> n \<Longrightarrow> out = bs"
proof (induction n arbitrary: bs out)
  case 0
  then show ?case by simp
next
  case (Suc n)
  show ?case
  proof (cases bs)
    case Nil
    with Suc.prems show ?thesis by simp
  next
    case (Cons b rest)
    with Suc.prems obtain lo hi k where ld: "lead (of_char b) = Some (lo, hi, k)"
      by (cases "lead (of_char b)") (auto split: prod.splits)
    obtain ok j where c: "conts lo hi k rest = (ok, j)"
      by (cases "conts lo hi k rest")
    obtain e out' where r: "utf8_replace n (drop j rest) = (e, out')"
      by (cases "utf8_replace n (drop j rest)")
    from Suc.prems Cons ld c r
    have ok: "ok" and e: "\<not> e" and out: "out = b # take j rest @ out'"
      by (cases ok; simp)+
    from Suc.prems Cons have "length (drop j rest) \<le> n" by simp
    with Suc.IH r e have "out' = drop j rest" by simp
    with out Cons show ?thesis by simp
  qed
qed

text \<open>
  The bound on the number of steps is never reached: every bound of at least the length of
  the input gives the same decoding.
\<close>

lemma utf8_replace_fuel:
  "length bs \<le> n \<Longrightarrow> length bs \<le> m \<Longrightarrow> utf8_replace n bs = utf8_replace m bs"
proof (induction n arbitrary: m bs)
  case 0
  then show ?case by (cases m) simp_all
next
  case (Suc n)
  show ?case
  proof (cases bs)
    case Nil
    then show ?thesis by (cases m) simp_all
  next
    case (Cons b rest)
    with Suc.prems obtain m' where m: "m = Suc m'" and le: "length rest \<le> m'"
      by (cases m) auto
    from Suc.prems Cons have len: "length rest \<le> n" by simp
    have r: "utf8_replace n (drop k rest) = utf8_replace m' (drop k rest)" for k
      using len le by (intro Suc.IH) simp_all
    from r [of 0] have r0: "utf8_replace n rest = utf8_replace m' rest" by simp
    show ?thesis
      unfolding Cons m
      by (simp add: r r0 split: option.splits prod.splits bool.splits)
  qed
qed

lemma strict_is_lossy:
  "decodeUtf8Strict p = Some s \<Longrightarrow> toString_utf8 p = p \<and> s = stripBOM p"
  unfolding decodeUtf8Strict_def toString_utf8_def
  by (auto split: prod.splits bool.splits dest: utf8_replace_clean)

lemma record_fields:
  "get_prop (build_record rt a req ct b wr) ''body_json'' =
     Some (decodedBody (sniff rt ct (res_preview wr)))"
  "get_prop (build_record rt a req ct b wr) ''body_text'' =
     Some (nullable (bodyText (sniff rt ct (res_preview wr))))"
  "get_prop (build_record rt a req ct b wr) ''body_b64'' =
     Some (nullable (bodyB64 (sniff rt ct (res_preview wr))))"
  "get_prop (build_record rt a req ct b wr) ''body_file'' = Some (JStr b)"
  "get_prop (build_record rt a req ct b wr) ''body_size'' = Some (JNum (real (res_written wr)))"
  "get_prop (build_record rt a req ct b wr) ''body_sha256'' = Some (JStr (res_bodySha256 wr))"
  "get_prop (build_record rt a req ct b wr) ''preview_truncated'' =
     Some (JBool (res_written wr > length (res_preview wr)))"
  by (simp_all add: build_record_def get_prop_def Let_def)

text \<open>
  Claim C2, as amended. For a JSON content type (\<open>application/json\<close> or \<open>text/json\<close>) and a
  preview that is not empty, the record document is built from the preview alone: when
  the preview decodes as strict UTF-8 and parses as JSON, \<open>body_json\<close> holds the parsed
  value and \<open>body_text\<close> is null; in every other case, a failed parse as well as a failed
  strict decoding, \<open>body_json\<close> is null and \<open>body_text\<close> holds the lenient decoding of the
  preview, \<open>preview.toString('utf8')\<close>, with U+FFFD in place of ill-formed bytes. For these
  content types \<open>body_b64\<close> is always null. Where the strict decoding succeeds the lenient
  one returns the same bytes, the strict one without a leading byte order mark.
\<close>

theorem C2_json_preview_fallback:
  assumes "contentType = ''application/json'' \<or> contentType = ''text/json''"
    and "res_preview wr \<noteq> []"
  shows
    "(let doc = build_record rt a req contentType bodyName wr;
          preview = res_preview wr
      in (case Option.bind (decodeUtf8Strict preview) (JSON_parse rt) of
            Some v \<Rightarrow>
              get_prop doc ''body_json'' = Some v \<and> get_prop doc ''body_text'' = Some JNull
          | None \<Rightarrow>
              get_prop doc ''body_json'' = Some JNull
              \<and> get_prop doc ''body_text'' = Some (JStr (toString_utf8 preview)))
         \<and> get_prop doc ''body_b64'' = Some JNull
         \<and> (case decodeUtf8Strict preview of
               None \<Rightarrow> True
             | Some s \<Rightarrow> toString_utf8 preview = preview \<and> s = stripBOM preview))"
  using assms
  by (auto simp: Let_def record_fields sniff_def nullable_def dest: strict_is_lossy
      split: option.splits Option.bind_splits)

text \<open>
  The theorem at a preview that parses: a JSON content type, the preview \<open>body_file=x\<close>
  (a document of the example runtime), stored as \<open>body_json\<close>.
\<close>

theorem C2_json_preview_fallback_witness:
  "res_preview \<lparr>res_written = 11, res_bodySha256 = [], res_preview = ''body_file=x''\<rparr> \<noteq> []
   \<and> get_prop
        (build_record example_runtime arrival1 (post [''body_file=x'']) ''application/json''
           ''x.body'' \<lparr>res_written = 11, res_bodySha256 = [], res_preview = ''body_file=x''\<rparr>)
        ''body_json'' = Some (JObj [(''body_file'', JStr ''x'')])
   \<and> get_prop
        (build_record example_runtime arrival1 (post [''body_file=x'']) ''application/json''
           ''x.body'' \<lparr>res_written = 11, res_bodySha256 = [], res_preview = ''body_file=x''\<rparr>)
        ''body_b64'' = Some JNull"
  using C2_json_preview_fallback
    [of "''application/json''"
        "\<lparr>res_written = 11, res_bodySha256 = [], res_preview = ''body_file=x''\<rparr>"
        example_runtime arrival1 "post [''body_file=x'']" "''x.body''"]
  by (simp add: Let_def decodeUtf8Strict_def lead_def example_runtime_def example_parse_def
      stripBOM_def)

text \<open>
  Claim C2 as stated fails: the content type is \<open>application/json\<close>, the preview is the
  single byte 0xFF, which is not UTF-8, so the strict decoding fails; the claim asks for
  the base64 of the preview in \<open>body_b64\<close>, and the handler stores null there and the
  replacement character in \<open>body_text\<close>.
\<close>

theorem C2_counterexample:
  "decodeUtf8Strict [CHR 0xFF] = None
   \<and> get_prop
        (build_record example_runtime arrival1 (post [[CHR 0xFF]]) ''application/json''
           ''x.body'' \<lparr>res_written = 1, res_bodySha256 = [], res_preview = [CHR 0xFF]\<rparr>)
        ''body_b64'' = Some JNull
   \<and> get_prop
        (build_record example_runtime arrival1 (post [[CHR 0xFF]]) ''application/json''
           ''x.body'' \<lparr>res_written = 1, res_bodySha256 = [], res_preview = [CHR 0xFF]\<rparr>)
        ''body_text'' = Some (JStr replacement)"
  by (simp add: record_fields sniff_def nullable_def decodeUtf8Strict_def toString_utf8_def
      lead_def)

section \<open>The body stream\<close>

lemma tap_inv0: "tap_inv P tap0"
  by (simp add: tap_inv_def tap0_def)

lemma nat_minus_int: "nat (P - int n) = nat P - n"
  by arith

lemma transform_Inr:
  assumes "transform M e P st c = Inr st'" and "tap_inv P st"
  shows "tap_inv P st' \<and> hashed st' = hashed st @ c \<and> int (length (hashed st')) \<le> M
         \<and> (case e of None \<Rightarrow> True | Some x \<Rightarrow> length (hashed st') \<le> x)"
  using assms
  by (auto simp: transform_def tap_inv_def Let_def min_def nat_minus_int
      split: if_splits option.splits)

lemma transform_Inl:
  assumes "transform M e P st c = Inl x" and "tap_inv P st"
  shows "(x = PAYLOAD_TOO_LARGE \<and> M < int (length (hashed st) + length c))
         \<or> (x = TOO_MUCH_DATA \<and> int (length (hashed st) + length c) \<le> M
             \<and> (case e of None \<Rightarrow> False | Some y \<Rightarrow> y < length (hashed st) + length c))"
  using assms
  by (auto simp: transform_def tap_inv_def Let_def split: if_splits option.splits)

lemma update_same: "map_of al k = Some v \<Longrightarrow> AList.update k v al = al"
  by (induction al) auto

lemma update_fresh: "k \<notin> fst ` set al \<Longrightarrow> AList.update k v al = al @ [(k, v)]"
  by (induction al) auto

lemma update_twice: "AList.update k v (AList.update k v' al) = AList.update k v al"
  by (induction al) auto

text \<open>
  A run of the transform that refuses no chunk has passed on and hashed every chunk, in
  order.
\<close>

lemma feed_Inr:
  assumes "feed M e P cs st = (passed, Inr st')" and "tap_inv P st"
  shows "passed = cs \<and> tap_inv P st' \<and> hashed st' = hashed st @ concat cs
         \<and> int (length (hashed st')) \<le> (if cs = [] then int (length (hashed st')) else M)
         \<and> (case e of None \<Rightarrow> True | Some x \<Rightarrow> cs \<noteq> [] \<longrightarrow> length (hashed st') \<le> x)"
  using assms
proof (induction cs arbitrary: st passed)
  case Nil
  then show ?case by (simp split: option.splits)
next
  case (Cons c cs)
  from Cons.prems(1) obtain st1 where t: "transform M e P st c = Inr st1"
    by (cases "transform M e P st c") auto
  from Cons.prems(1) t obtain rest where
    p: "feed M e P cs st1 = (rest, Inr st')" and ps: "passed = c # rest"
    by (cases "feed M e P cs st1") auto
  from transform_Inr [OF t Cons.prems(2)]
  have i1: "tap_inv P st1" and h1: "hashed st1 = hashed st @ c"
    and b1: "int (length (hashed st1)) \<le> M"
    and e1: "(case e of None \<Rightarrow> True | Some x \<Rightarrow> length (hashed st1) \<le> x)"
    by auto
  from Cons.IH [OF p i1]
  have r: "rest = cs" "tap_inv P st'" "hashed st' = hashed st1 @ concat cs"
    "int (length (hashed st')) \<le> (if cs = [] then int (length (hashed st')) else M)"
    "(case e of None \<Rightarrow> True | Some x \<Rightarrow> cs \<noteq> [] \<longrightarrow> length (hashed st') \<le> x)"
    by auto
  from r(3) r(4) b1 have "int (length (hashed st')) \<le> M"
    by (cases "cs = []") auto
  moreover from r(3) r(5) e1
  have "(case e of None \<Rightarrow> True | Some x \<Rightarrow> length (hashed st') \<le> x)"
    by (cases "cs = []") (auto split: option.splits)
  ultimately show ?case using r h1 ps
    by (auto split: option.splits)
qed

text \<open>Chunks written without an error are appended to the file, in order.\<close>

lemma write_chunks_True:
  assumes "write_chunks out cs w = (True, w')" and "map_of (files w) out = Some old"
  shows "files w' = AList.update out (old @ concat cs) (files w)
         \<and> faults w' = faults w
         \<and> trace w' = trace w @ replicate (length cs) (WriteChunk out)"
  using assms
proof (induction cs arbitrary: w old)
  case Nil
  then show ?case by (simp add: update_same)
next
  case (Cons c cs)
  from Cons.prems(1) have nf: "\<not> fails (WriteChunk out) w"
    by (auto simp: fs_write_chunk_def split: if_splits)
  define w1 where "w1 = snd (fs_write_chunk out c w)"
  from nf have w1: "fs_write_chunk out c w = (True, w1)"
    by (simp add: w1_def fs_write_chunk_def)
  from Cons.prems(1) w1 have p: "write_chunks out cs w1 = (True, w')" by simp
  from nf Cons.prems(2) have f1: "files w1 = AList.update out (old @ c) (files w)"
    and fa1: "faults w1 = faults w" and tr1: "trace w1 = trace w @ [WriteChunk out]"
    by (simp_all add: w1_def fs_write_chunk_def performs_def)
  from f1 have m1: "map_of (files w1) out = Some (old @ c)"
    by (simp add: update_conv')
  from Cons.IH [OF p m1] f1 fa1 tr1 show ?case
    by (simp add: replicate_append_same)
qed

lemma write_chunks_sound:
  assumes "\<not> fails (WriteChunk out) w"
  shows "fst (write_chunks out cs w)"
  using assms
proof (induction cs arbitrary: w)
  case Nil
  show ?case by simp
next
  case (Cons c cs)
  define w1 where "w1 = snd (fs_write_chunk out c w)"
  from Cons.prems have w1: "fs_write_chunk out c w = (True, w1)"
    and "faults w1 = faults w"
    by (simp_all add: w1_def fs_write_chunk_def performs_def)
  with Cons.prems have "\<not> fails (WriteChunk out) w1" by (simp add: fails_def)
  from Cons.IH [OF this] w1 show ?case by simp
qed

lemma Buffer_concat_exact: "length (concat bufs) = n \<Longrightarrow> Buffer_concat bufs n = concat bufs"
  by (simp add: Buffer_concat_def)

lemma open_excl_True:
  assumes "fs_open_excl n w = (True, w1)"
  shows "\<not> present n w \<and> \<not> fails (OpenExcl n) w \<and> files w1 = files w @ [(n, [])]
         \<and> faults w1 = faults w \<and> trace w1 = trace w @ [OpenExcl n]"
  using assms by (auto simp: fs_open_excl_def performs_def split: if_splits)

lemma not_present_iff: "\<not> present n w \<longleftrightarrow> n \<notin> fst ` set (files w)"
  by (simp add: present_def map_of_eq_None_iff)

text \<open>
  A pipeline that ends without an error: the client did not disconnect, the file was
  created by it, and it holds every chunk, in order, and nothing else.
\<close>

lemma pipeline_Inr:
  assumes "pipeline req M e P out w = (Inr st, w')"
  shows "\<not> aborted req \<and> \<not> present out w
         \<and> tap_inv P st \<and> hashed st = concat (chunks req)
         \<and> (chunks req \<noteq> [] \<longrightarrow> int (length (concat (chunks req))) \<le> M)
         \<and> (case e of None \<Rightarrow> True
             | Some x \<Rightarrow> chunks req \<noteq> [] \<longrightarrow> length (concat (chunks req)) \<le> x)
         \<and> files w' = files w @ [(out, concat (chunks req))]
         \<and> faults w' = faults w
         \<and> trace w' = trace w @ OpenExcl out # replicate (length (chunks req)) (WriteChunk out)"
proof -
  obtain passed r where fd: "feed M e P (chunks req) tap0 = (passed, r)"
    by (cases "feed M e P (chunks req) tap0")
  from assms fd have r: "r = Inr st" and na: "\<not> aborted req"
    by (auto simp: pipeline_def split: sum.splits if_splits prod.splits bool.splits)
  from assms fd r na obtain w1 where o: "fs_open_excl out w = (True, w1)"
    by (cases "fs_open_excl out w") (auto simp: pipeline_def split: bool.splits prod.splits)
  from assms fd r na o have wc: "write_chunks out passed w1 = (True, w')"
    by (cases "write_chunks out passed w1") (auto simp: pipeline_def split: bool.splits)
  from feed_Inr [OF fd [unfolded r] tap_inv0]
  have ps: "passed = chunks req" and i: "tap_inv P st" and h: "hashed st = concat (chunks req)"
    and b: "int (length (hashed st)) \<le> (if chunks req = [] then int (length (hashed st)) else M)"
    and x: "(case e of None \<Rightarrow> True | Some x \<Rightarrow> chunks req \<noteq> [] \<longrightarrow> length (hashed st) \<le> x)"
    by (auto simp: tap0_def)
  note O = open_excl_True [OF o]
  from O have "map_of (files w) out = None"
    by (simp add: present_def)
  with O have m: "map_of (files w1) out = Some []"
    by (simp add: map_add_def)
  from write_chunks_True [OF wc m] ps
  have f: "files w' = AList.update out (concat (chunks req)) (files w1)"
    and fa: "faults w' = faults w1"
    and tr: "trace w' = trace w1 @ replicate (length (chunks req)) (WriteChunk out)"
    by simp_all
  from O have "AList.update out (concat (chunks req)) (files w1)
               = files w @ [(out, concat (chunks req))]"
    by (simp add: not_present_iff update_fresh [symmetric] update_twice)
  with f have f': "files w' = files w @ [(out, concat (chunks req))]" by simp
  show ?thesis
    using na O i h b x f' fa tr by (auto split: option.splits if_splits)
qed

text \<open>What a successful \<open>writeBodyToFile\<close> returns and leaves behind.\<close>

lemma writeBodyToFile_Inr:
  assumes "writeBodyToFile cfg rt req out M e w = (Inr r, w')"
  shows "0 < M \<and> \<not> aborted req \<and> \<not> present out w
         \<and> r = \<lparr>res_written = length (concat (chunks req)),
                res_bodySha256 = sha256_hex rt (concat (chunks req)),
                res_preview = take (nat (previewLimit cfg)) (concat (chunks req))\<rparr>
         \<and> (chunks req \<noteq> [] \<longrightarrow> int (length (concat (chunks req))) \<le> M)
         \<and> (case e of None \<Rightarrow> True
             | Some x \<Rightarrow> chunks req \<noteq> [] \<longrightarrow> length (concat (chunks req)) \<le> x)
         \<and> files w' = files w @ [(out, concat (chunks req))]
         \<and> faults w' = faults w
         \<and> trace w' = trace w @ OpenExcl out # replicate (length (chunks req)) (WriteChunk out)"
proof -
  from assms have M: "0 < M" by (auto simp: writeBodyToFile_def split: if_splits)
  from assms M obtain st where
    p: "pipeline req M e (previewLimit cfg) out w = (Inr st, w')"
    and r: "r = \<lparr>res_written = written st, res_bodySha256 = sha256_hex rt (hashed st),
                 res_preview = Buffer_concat (previewChunks st) (previewBytes st)\<rparr>"
    by (cases "pipeline req M e (previewLimit cfg) out w")
       (auto simp: writeBodyToFile_def split: sum.splits)
  note P = pipeline_Inr [OF p]
  from P have i: "tap_inv (previewLimit cfg) st" and h: "hashed st = concat (chunks req)"
    by simp_all
  from i h have pv: "Buffer_concat (previewChunks st) (previewBytes st)
                     = take (nat (previewLimit cfg)) (concat (chunks req))"
    by (simp add: tap_inv_def Buffer_concat_exact)
  from i h have wr: "written st = length (concat (chunks req))"
    by (simp add: tap_inv_def)
  from M P r h pv wr show ?thesis by simp
qed

lemma rename_True:
  assumes "fs_rename a b w = (True, w1)"
  shows "\<exists>c. map_of (files w) a = Some c \<and> \<not> fails (Rename a b) w
           \<and> files w1 = AList.update b c (AList.delete a (files w))
           \<and> faults w1 = faults w \<and> trace w1 = trace w @ [Rename a b]"
  using assms by (auto simp: fs_rename_def performs_def split: if_splits option.splits)

lemma write_file_True:
  assumes "fs_write_file n c w = (True, w1)"
  shows "\<not> fails (WriteFile n) w \<and> files w1 = AList.update n c (files w)
         \<and> faults w1 = faults w \<and> trace w1 = trace w @ [WriteFile n]"
  using assms by (auto simp: fs_write_file_def performs_def split: if_splits)

lemma mkdir_True:
  assumes "fs_mkdir w = (True, w1)"
  shows "\<not> fails Mkdir w \<and> files w1 = files w \<and> faults w1 = faults w
         \<and> trace w1 = trace w @ [Mkdir]"
  using assms by (auto simp: fs_mkdir_def performs_def)

lemma delete_appended: "k \<notin> fst ` set al \<Longrightarrow> AList.delete k (al @ [(k, v)]) = al"
  by (induction al) (auto simp: AList.delete_eq)

lemma map_of_appended: "k \<notin> fst ` set al \<Longrightarrow> map_of (al @ [(k, v)]) k = Some v"
  by (induction al) auto

lemma receive_body_Inr:
  assumes "receive_body cfg rt req out e w = (Inr r, w')"
  shows "writeBodyToFile cfg rt req out (maxBody cfg) e w = (Inr r, w')
         \<and> 0 < res_written r \<and> (case e of None \<Rightarrow> True | Some x \<Rightarrow> res_written r = x)"
  using assms
  by (auto simp: receive_body_def split: prod.splits sum.splits if_splits option.splits)

lemma names_differ:
  "bodyName_for a \<noteq> recordName_of a"
  "bodyName_for a @ ''.tmp'' \<noteq> recordName_of a"
  "bodyName_for a @ ''.tmp'' \<noteq> bodyName_for a"
  "recordName_of a @ ''.tmp'' \<noteq> recordName_of a"
  "recordName_of a @ ''.tmp'' \<noteq> bodyName_for a"
  "recordName_of a @ ''.tmp'' \<noteq> bodyName_for a @ ''.tmp''"
  by (simp_all add: bodyName_for_def recordName_of_def)

text \<open>
  An accepted request: the name returned is the record's, the body is not empty and
  within the limit, and the directory holds the body under its name and the record
  document under the record's name.
\<close>

lemma ingest_Inr:
  assumes "ingest cfg rt a req w = (Inr n, w')"
  shows "n = recordName_of a \<and> 0 < length (body_of req)
         \<and> int (length (body_of req)) \<le> maxBody cfg
         \<and> \<not> present (bodyName_for a @ ''.tmp'') w
         \<and> files w' =
             AList.update (recordName_of a) (JSON_stringify rt (written_record cfg rt a req))
               (AList.delete (recordName_of a @ ''.tmp'')
                  (AList.update (bodyName_for a) (body_of req) (files w)))
         \<and> faults w' = faults w
         \<and> trace w' =
             trace w @ [Mkdir, OpenExcl (bodyName_for a @ ''.tmp'')]
               @ replicate (length (chunks req)) (WriteChunk (bodyName_for a @ ''.tmp''))
               @ [Rename (bodyName_for a @ ''.tmp'') (bodyName_for a),
                  WriteFile (recordName_of a @ ''.tmp''),
                  Rename (recordName_of a @ ''.tmp'') (recordName_of a)]"
proof -
  let ?b = "bodyName_for a" and ?n = "recordName_of a"
  let ?tb = "bodyName_for a @ ''.tmp''" and ?tr = "recordName_of a @ ''.tmp''"
  from assms obtain e where h: "check_headers cfg req = Inr e"
    by (cases "check_headers cfg req") (auto simp: ingest_def)
  from assms h obtain w0 where mk: "fs_mkdir w = (True, w0)"
    by (cases "fs_mkdir w") (auto simp: ingest_def Let_def split: bool.splits)
  from assms h mk obtain r w1 where rb: "receive_body cfg rt req ?tb e w0 = (Inr r, w1)"
    by (cases "receive_body cfg rt req ?tb e w0")
       (auto simp: ingest_def Let_def split: sum.splits)
  from assms h mk rb obtain w2 where rn: "fs_rename ?tb ?b w1 = (True, w2)"
    by (cases "fs_rename ?tb ?b w1") (auto simp: ingest_def Let_def split: bool.splits)
  let ?doc = "JSON_stringify rt (build_record rt a req (contentType_of req) ?b r)"
  from assms h mk rb rn obtain w3 where wf: "fs_write_file ?tr ?doc w2 = (True, w3)"
    by (cases "fs_write_file ?tr ?doc w2") (auto simp: ingest_def Let_def split: bool.splits)
  from assms h mk rb rn wf have rn2: "fs_rename ?tr ?n w3 = (True, w')" and n: "n = ?n"
    by (cases "fs_rename ?tr ?n w3"; auto simp: ingest_def Let_def split: bool.splits)+
  note MK = mkdir_True [OF mk]
  from receive_body_Inr [OF rb]
  have wb: "writeBodyToFile cfg rt req ?tb (maxBody cfg) e w0 = (Inr r, w1)"
    and pos: "0 < res_written r" by simp_all
  note WB = writeBodyToFile_Inr [OF wb]
  from WB have r: "r = \<lparr>res_written = length (body_of req),
      res_bodySha256 = sha256_hex rt (body_of req),
      res_preview = take (nat (previewLimit cfg)) (body_of req)\<rparr>"
    by (simp add: body_of_def)
  with pos have pos': "0 < length (body_of req)" by simp
  then have ne: "chunks req \<noteq> []" by (auto simp: body_of_def)
  with WB have le: "int (length (body_of req)) \<le> maxBody cfg" by (simp add: body_of_def)
  from WB MK have np: "\<not> present ?tb w" by (simp add: present_def)
  from WB MK have f1: "files w1 = files w @ [(?tb, body_of req)]"
    by (simp add: body_of_def)
  from np have nk: "?tb \<notin> fst ` set (files w)" by (simp add: not_present_iff)
  from f1 map_of_appended [OF nk] have m1: "map_of (files w1) ?tb = Some (body_of req)"
    by simp
  from f1 delete_appended [OF nk] have d1: "AList.delete ?tb (files w1) = files w"
    by simp
  from rename_True [OF rn] m1 d1
  have f2: "files w2 = AList.update ?b (body_of req) (files w)"
    and fa2: "faults w2 = faults w1" and t2: "trace w2 = trace w1 @ [Rename ?tb ?b]"
    by auto
  from write_file_True [OF wf]
  have f3: "files w3 = AList.update ?tr ?doc (files w2)"
    and fa3: "faults w3 = faults w2" and t3: "trace w3 = trace w2 @ [WriteFile ?tr]"
    by simp_all
  from rename_True [OF rn2] f3
  have f4: "files w' = AList.update ?n ?doc (AList.delete ?tr (files w2))"
    and fa4: "faults w' = faults w3" and t4: "trace w' = trace w3 @ [Rename ?tr ?n]"
    by (auto simp: update_conv' delete_update_same)
  from f4 f2 r have f: "files w' =
      AList.update ?n (JSON_stringify rt (written_record cfg rt a req))
        (AList.delete ?tr (AList.update ?b (body_of req) (files w)))"
    by (simp add: written_record_def)
  from fa4 fa3 fa2 WB MK have fa: "faults w' = faults w" by simp
  from t4 t3 t2 WB MK have tr: "trace w' =
      trace w @ [Mkdir, OpenExcl ?tb] @ replicate (length (chunks req)) (WriteChunk ?tb)
        @ [Rename ?tb ?b, WriteFile ?tr, Rename ?tr ?n]"
    by simp
  from n pos' le np f fa tr show ?thesis by blast
qed

section \<open>Unfolding the model on concrete inputs\<close>

lemmas fs_defs =
  performs_def fails_def present_def fs_mkdir_def fs_readdir_def fs_open_excl_def
  fs_write_chunk_def fs_write_file_def fs_rename_def fs_unlink_def fs_read_file_def
  fs_access_def fs_stat_def

lemmas post_defs =
  handlePostWebhook_def ingest_def check_headers_def requireToken_def receive_body_def
  writeBodyToFile_def pipeline_def transform_def tap0_def Buffer_concat_def contentType_of_def
  recordName_of_def bodyName_for_def sendText_def internal_error_def nl_def octet_stream_def
  is_digits_def parseInt_def build_record_def

lemmas retention_defs =
  enforceRetention_def evict_def bodyName_of_def newest_first_def endsWith_def
  str_includes_def backslash_def String_or_empty_def get_prop_def

lemmas trim_defs = trim_def trimStart_def trimEnd_def ws_lead_def ws_tokens_def

lemmas example_defs =
  example_config_def example_runtime_def example_parse_def example_stringify_def
  empty_world_def post_def arrival1_def arrival2_def arrival3_def

section \<open>Accepted payloads\<close>

lemma stored_files:
  assumes "ingest cfg rt a req w = (Inr n, w')"
  shows "map_of (files w') (recordName_of a) = Some (JSON_stringify rt (written_record cfg rt a req))"
    and "map_of (files w') (bodyName_for a) = Some (body_of req)"
proof -
  note I = ingest_Inr [OF assms]
  from I show "map_of (files w') (recordName_of a)
      = Some (JSON_stringify rt (written_record cfg rt a req))"
    by (simp add: update_conv')
  from I names_differ [of a] show "map_of (files w') (bodyName_for a) = Some (body_of req)"
    by (simp add: update_conv' delete_conv')
qed

text \<open>The example request: two chunks, \<open>ab\<close> and \<open>c\<close>, into an empty directory.\<close>

lemma example_ingest:
  "ingest example_config example_runtime arrival1 (post [''ab'', ''c'']) empty_world =
  (Inr ''20260129T061800Z-ffffffffffff.json'',
   \<lparr>files = [(''20260129T061800Z-ffffffffffff.body'', ''abc''),
              (''20260129T061800Z-ffffffffffff.json'',
               ''body_file=20260129T061800Z-ffffffffffff.body'')],
     faults = [],
     trace = [Mkdir, OpenExcl ''20260129T061800Z-ffffffffffff.body.tmp'',
        WriteChunk ''20260129T061800Z-ffffffffffff.body.tmp'',
        WriteChunk ''20260129T061800Z-ffffffffffff.body.tmp'',
        Rename ''20260129T061800Z-ffffffffffff.body.tmp'' ''20260129T061800Z-ffffffffffff.body'',
        WriteFile ''20260129T061800Z-ffffffffffff.json.tmp'',
        Rename ''20260129T061800Z-ffffffffffff.json.tmp''
          ''20260129T061800Z-ffffffffffff.json'']\<rparr>)"
  by (simp add: post_defs fs_defs example_defs get_prop_def Let_def)

lemma post_chunks: "chunks (post cs) = cs" "body_of (post cs) = concat cs"
  by (simp_all add: post_def body_of_def)

lemma arrival1_names:
  "bodyName_for arrival1 = ''20260129T061800Z-ffffffffffff.body''"
  "recordName_of arrival1 = ''20260129T061800Z-ffffffffffff.json''"
  by (simp_all add: arrival1_def bodyName_for_def recordName_of_def)

text \<open>
  Claim C4. When a request is accepted (\<open>ingest\<close> returns the record's name; the retention
  pass has not run yet), its body \<open>body_of req\<close>, all the bytes of all its chunks, is no
  longer than \<open>maxBody\<close>; the body file published under \<open>bodyName_for a\<close> holds exactly
  those bytes; and the record document published under the returned name is the
  serialisation of a record whose \<open>body_file\<close> is that name, whose \<open>body_size\<close> is the
  number of those bytes and whose \<open>body_sha256\<close> is the digest of those bytes, the whole
  body and not the preview.
\<close>

theorem C4_blob_and_digest:
  assumes "ingest cfg rt a req w = (Inr n, w')"
  shows "int (length (body_of req)) \<le> maxBody cfg
         \<and> map_of (files w') (bodyName_for a) = Some (body_of req)
         \<and> map_of (files w') n = Some (JSON_stringify rt (written_record cfg rt a req))
         \<and> get_prop (written_record cfg rt a req) ''body_file'' = Some (JStr (bodyName_for a))
         \<and> get_prop (written_record cfg rt a req) ''body_size''
             = Some (JNum (real (length (body_of req))))
         \<and> get_prop (written_record cfg rt a req) ''body_sha256''
             = Some (JStr (sha256_hex rt (body_of req)))"
  using ingest_Inr [OF assms] stored_files [OF assms]
  by (simp add: written_record_def record_fields)

text \<open>The theorem at the example request: three bytes stored, their digest recorded.\<close>

theorem C4_blob_and_digest_witness:
  "map_of (files (snd (ingest example_config example_runtime arrival1 (post [''ab'', ''c''])
                         empty_world)))
     ''20260129T061800Z-ffffffffffff.body'' = Some ''abc''
   \<and> get_prop (written_record example_config example_runtime arrival1 (post [''ab'', ''c'']))
        ''body_sha256'' = Some (JStr (sha256_hex example_runtime ''abc''))
   \<and> get_prop (written_record example_config example_runtime arrival1 (post [''ab'', ''c'']))
        ''body_size'' = Some (JNum 3)"
  using C4_blob_and_digest [OF example_ingest]
  by (simp add: example_ingest post_chunks arrival1_names)



section \<open>Payloads over the limit\<close>

text \<open>
  Without a declared length, a body longer than a positive limit is refused by the
  transform: the chunks passed on before are those that fit within the limit.
\<close>

lemma feed_too_large:
  assumes "tap_inv P st"
    and "int (length (hashed st)) \<le> M"
    and "M < int (length (hashed st) + length (concat cs))"
  shows "feed M None P cs st
           = (accepted_chunks (nat M - length (hashed st)) cs, Inl PAYLOAD_TOO_LARGE)"
  using assms
proof (induction cs arbitrary: st)
  case Nil
  then show ?case by simp
next
  case (Cons c cs)
  show ?case
  proof (cases "M < int (length (hashed st) + length c)")
    case True
    with Cons.prems(1) have "transform M None P st c = Inl PAYLOAD_TOO_LARGE"
      by (simp add: transform_def tap_inv_def Let_def)
    moreover from True Cons.prems(2) have "\<not> length c \<le> nat M - length (hashed st)"
      by arith
    ultimately show ?thesis by simp
  next
    case False
    with Cons.prems(1) obtain st1 where t: "transform M None P st c = Inr st1"
      by (cases "transform M None P st c")
         (auto simp: transform_def tap_inv_def Let_def split: if_splits)
    from transform_Inr [OF t Cons.prems(1)]
    have i1: "tap_inv P st1" and h1: "hashed st1 = hashed st @ c"
      and b1: "int (length (hashed st1)) \<le> M" by auto
    from Cons.prems(3) h1 have big: "M < int (length (hashed st1) + length (concat cs))"
      by simp
    from False have fit: "length c \<le> nat M - length (hashed st)" by arith
    have bud: "nat M - length (hashed st1) = nat M - length (hashed st) - length c"
      using h1 by simp
    from Cons.IH [OF i1 b1 big] t fit bud show ?thesis by simp
  qed
qed

lemma write_chunks_ok:
  assumes "\<not> fails (WriteChunk out) w" and "map_of (files w) out = Some old"
  shows "\<exists>w'. write_chunks out cs w = (True, w')
           \<and> files w' = AList.update out (old @ concat cs) (files w)
           \<and> faults w' = faults w
           \<and> trace w' = trace w @ replicate (length cs) (WriteChunk out)"
proof -
  from write_chunks_sound [OF assms(1), of cs]
  have "write_chunks out cs w = (True, snd (write_chunks out cs w))"
    by (cases "write_chunks out cs w") simp
  from this write_chunks_True [OF this assms(2)] show ?thesis by blast
qed

lemma unlink_present:
  assumes "present n w" and "\<not> fails (Unlink n) w"
  shows "files (snd (fs_unlink n w)) = AList.delete n (files w)"
    and "faults (snd (fs_unlink n w)) = faults w"
    and "trace (snd (fs_unlink n w)) = trace w @ [Unlink n]"
  using assms by (simp_all add: fs_unlink_def performs_def)

text \<open>
  A pipeline torn down by a refused chunk on a directory where the name is free and no
  operation fails: the file holds the chunks written by the steps the file stream
  completed, which are among the chunks passed on before the refusal.
\<close>

lemma pipeline_refused:
  assumes "feed M e P (chunks req) tap0 = (passed, Inl x)"
    and "faults w = []" and "\<not> present out w"
  shows "\<exists>w'. pipeline req M e P out w = (Inl x, w')
           \<and> files w' = files w @ [(out, concat (take (file_steps req - 1) passed))]
           \<and> faults w' = []
           \<and> trace w' = trace w @ OpenExcl out
                # replicate (min (length passed) (file_steps req - 1)) (WriteChunk out)"
proof -
  define w1 where "w1 = (performs (OpenExcl out) w)\<lparr>files := files w @ [(out, [])]\<rparr>"
  from assms(2,3) have op: "fs_open_excl out w = (True, w1)"
    by (simp add: fs_open_excl_def fails_def w1_def)
  from assms(3) have nk: "out \<notin> fst ` set (files w)" by (simp add: not_present_iff)
  have f1: "files w1 = files w @ [(out, [])]" and fa1: "faults w1 = []"
    and tr1: "trace w1 = trace w @ [OpenExcl out]"
    using assms(2) by (simp_all add: w1_def performs_def)
  from f1 map_of_appended [OF nk] have m1: "map_of (files w1) out = Some []" by simp
  from fa1 have nf: "\<not> fails (WriteChunk out) w1" by (simp add: fails_def)
  let ?cs = "take (file_steps req - 1) passed"
  from write_chunks_ok [OF nf m1, of ?cs] obtain w2 where
    wc: "write_chunks out ?cs w1 = (True, w2)"
    and f2: "files w2 = AList.update out (concat ?cs) (files w1)"
    and fa2: "faults w2 = faults w1"
    and tr2: "trace w2 = trace w1 @ replicate (length ?cs) (WriteChunk out)"
    by auto
  from nk f1 have "AList.update out (concat ?cs) (files w1) = files w @ [(out, concat ?cs)]"
    by (simp add: update_fresh [symmetric] update_twice)
  with f2 have f2': "files w2 = files w @ [(out, concat ?cs)]" by simp
  from assms(1) op wc have "pipeline req M e P out w = (Inl x, w2)"
    by (simp add: pipeline_def)
  with f2' fa2 fa1 tr2 tr1 show ?thesis by simp
qed

text \<open>
  Claim C6, as amended. The request carries the right token; its \<open>Content-Length\<close> header
  is absent, or a decimal number no smaller than the body (the transport delivers no more
  bytes than the header declares); the body is longer than \<open>maxBody\<close>; no file system
  operation fails and the temporary name of the body is free. Then the directory is left
  as it was: no body file and no record file has been added. The answer is 413
  \<open>payload too large\<close> when a positive length is declared, and when none is declared and
  \<open>maxBody\<close> is positive. It is not 413 in two cases: with no declared length and
  \<open>maxBody\<close> zero or negative, \<open>writeBodyToFile\<close> throws before it reads the stream and the
  answer is 400 \<open>incomplete body\<close>; with a declared length of zero the answer is 400
  \<open>empty body\<close>. With a header the request is refused before any file system operation.
  Without one and with a positive \<open>maxBody\<close>, the temporary file is opened, the first chunk
  that takes the count past \<open>maxBody\<close> tears the pipeline down, and the temporary file is
  unlinked; what the file stream wrote before, as many chunks as the steps it had
  completed allow, is among the chunks that fit within \<open>maxBody\<close>, and no later chunk is
  written.
\<close>

theorem C6_payload_too_large:
  assumes "requireToken cfg req = None"
    and "case content_length req of
           None \<Rightarrow> True
         | Some h \<Rightarrow> is_digits (trim h) \<and> length (body_of req) \<le> parseInt (trim h)"
    and "maxBody cfg < int (length (body_of req))"
    and "faults w = []" and "\<not> present (bodyName_for a @ ''.tmp'') w"
  shows "\<exists>w'. handlePostWebhook cfg rt a req w =
             ((case content_length req of
                 Some h \<Rightarrow>
                   if parseInt (trim h) = 0 then sendText 400 (''empty body'' @ nl)
                   else sendText 413 (''payload too large'' @ nl)
               | None \<Rightarrow>
                   if maxBody cfg \<le> 0 then sendText 400 (''incomplete body'' @ nl)
                   else sendText 413 (''payload too large'' @ nl)),
              w')
           \<and> files w' = files w
           \<and> trace w' = trace w @
               (case content_length req of
                  Some h \<Rightarrow> []
                | None \<Rightarrow>
                    if maxBody cfg \<le> 0 then [Mkdir, Unlink (bodyName_for a @ ''.tmp'')]
                    else
                      [Mkdir, OpenExcl (bodyName_for a @ ''.tmp'')]
                      @ replicate
                          (min (length (accepted_chunks (nat (maxBody cfg)) (chunks req)))
                             (file_steps req - 1))
                          (WriteChunk (bodyName_for a @ ''.tmp''))
                      @ [Unlink (bodyName_for a @ ''.tmp'')])"
proof (cases "content_length req")
  case (Some h)
  with assms(2) have d: "is_digits (trim h)" and l: "length (body_of req) \<le> parseInt (trim h)"
    by simp_all
  show ?thesis
  proof (cases "parseInt (trim h) = 0")
    case True
    with Some d assms(1) have "check_headers cfg req = Inl (sendText 400 (''empty body'' @ nl))"
      by (simp add: check_headers_def Let_def)
    with Some True show ?thesis by (simp add: handlePostWebhook_def ingest_def)
  next
    case False
    from l assms(3) have "maxBody cfg < int (parseInt (trim h))" by auto
    with False Some d assms(1)
    have "check_headers cfg req = Inl (sendText 413 (''payload too large'' @ nl))"
      by (simp add: check_headers_def Let_def)
    with Some False show ?thesis by (simp add: handlePostWebhook_def ingest_def)
  qed
next
  case None
  let ?tb = "bodyName_for a @ ''.tmp''"
  from None assms(1) have h: "check_headers cfg req = Inr None"
    by (simp add: check_headers_def)
  define w0 where "w0 = performs Mkdir w"
  from assms(4) have mk: "fs_mkdir w = (True, w0)"
    by (simp add: fs_mkdir_def fails_def w0_def)
  have f0: "files w0 = files w" and fa0: "faults w0 = []" and tr0: "trace w0 = trace w @ [Mkdir]"
    using assms(4) by (simp_all add: w0_def performs_def)
  from assms(5) f0 have np0: "\<not> present ?tb w0" by (simp add: present_def)
  show ?thesis
  proof (cases "maxBody cfg \<le> 0")
    case True
    then have wb: "writeBodyToFile cfg rt req ?tb (maxBody cfg) None w0 = (Inl INVALID_MAX_BYTES, w0)"
      by (simp add: writeBodyToFile_def)
    define w3 where "w3 = snd (fs_unlink ?tb w0)"
    from wb have rb: "receive_body cfg rt req ?tb None w0
        = (Inl (sendText 400 (''incomplete body'' @ nl)), w3)"
      by (simp add: receive_body_def w3_def)
    from np0 f0 tr0 have f3: "files w3 = files w" and tr3: "trace w3 = trace w @ [Mkdir, Unlink ?tb]"
      by (simp_all add: w3_def fs_unlink_def performs_def)
    from h mk rb have "handlePostWebhook cfg rt a req w
        = (sendText 400 (''incomplete body'' @ nl), w3)"
      by (simp add: handlePostWebhook_def ingest_def Let_def)
    with f3 tr3 None True show ?thesis by simp
  next
    case False
    then have pos: "0 < maxBody cfg" by simp
    let ?acc = "accepted_chunks (nat (maxBody cfg)) (chunks req)"
    from pos assms(3)
    have "feed (maxBody cfg) None (previewLimit cfg) (chunks req) tap0
            = (accepted_chunks (nat (maxBody cfg) - length (hashed tap0)) (chunks req),
               Inl PAYLOAD_TOO_LARGE)"
      by (intro feed_too_large [OF tap_inv0]) (simp_all add: tap0_def body_of_def)
    then have fd: "feed (maxBody cfg) None (previewLimit cfg) (chunks req) tap0
            = (?acc, Inl PAYLOAD_TOO_LARGE)"
      by (simp add: tap0_def)
    from pipeline_refused [OF fd fa0 np0] obtain w2 where
      p: "pipeline req (maxBody cfg) None (previewLimit cfg) ?tb w0 = (Inl PAYLOAD_TOO_LARGE, w2)"
      and f2: "files w2 = files w0 @ [(?tb, concat (take (file_steps req - 1) ?acc))]"
      and fa2: "faults w2 = []"
      and tr2: "trace w2 = trace w0 @ OpenExcl ?tb
                  # replicate (min (length ?acc) (file_steps req - 1)) (WriteChunk ?tb)"
      by blast
    from pos p
    have wb: "writeBodyToFile cfg rt req ?tb (maxBody cfg) None w0 = (Inl PAYLOAD_TOO_LARGE, w2)"
      by (simp add: writeBodyToFile_def)
    from assms(5) have nk: "?tb \<notin> fst ` set (files w)" by (simp add: not_present_iff)
    from f2 f0 map_of_appended [OF nk] have pr: "present ?tb w2" by (simp add: present_def)
    from fa2 have nfu: "\<not> fails (Unlink ?tb) w2" by (simp add: fails_def)
    define w3 where "w3 = snd (fs_unlink ?tb w2)"
    from wb have rb: "receive_body cfg rt req ?tb None w0
        = (Inl (sendText 413 (''payload too large'' @ nl)), w3)"
      by (simp add: receive_body_def w3_def)
    from unlink_present [OF pr nfu] f2 f0 delete_appended [OF nk]
    have f3: "files w3 = files w"
      by (simp add: w3_def)
    from unlink_present [OF pr nfu] tr2 tr0
    have tr3: "trace w3 = trace w @ [Mkdir, OpenExcl ?tb]
                  @ replicate (min (length ?acc) (file_steps req - 1)) (WriteChunk ?tb)
                  @ [Unlink ?tb]"
      by (simp add: w3_def)
    from h mk rb have "handlePostWebhook cfg rt a req w
        = (sendText 413 (''payload too large'' @ nl), w3)"
      by (simp add: handlePostWebhook_def ingest_def Let_def)
    with f3 tr3 None False show ?thesis by simp
  qed
qed

text \<open>
  The theorem at a body of six bytes in four chunks against a limit of four, the file
  stream having completed the open and one write when the third chunk is refused; and
  at a body of three bytes against a limit of zero.
\<close>

lemma example_too_large:
  "handlePostWebhook example_config example_runtime arrival1
     ((post [''ab'', ''c'', ''de'', ''f''])\<lparr>file_steps := 2\<rparr>) empty_world =
   (sendText 413 (''payload too large'' @ nl),
    \<lparr>files = [], faults = [],
     trace = [Mkdir, OpenExcl ''20260129T061800Z-ffffffffffff.body.tmp'',
        WriteChunk ''20260129T061800Z-ffffffffffff.body.tmp'',
        Unlink ''20260129T061800Z-ffffffffffff.body.tmp'']\<rparr>)"
  by (simp add: post_defs fs_defs example_defs Let_def)

lemma example_zero_limit:
  "handlePostWebhook zero_limit_config example_runtime arrival1 (post [''abc'']) empty_world =
   (sendText 400 (''incomplete body'' @ nl),
    \<lparr>files = [], faults = [],
     trace = [Mkdir, Unlink ''20260129T061800Z-ffffffffffff.body.tmp'']\<rparr>)"
  by (simp add: post_defs fs_defs example_defs zero_limit_config_def Let_def)

theorem C6_payload_too_large_witness:
  "requireToken example_config ((post [''ab'', ''c'', ''de'', ''f''])\<lparr>file_steps := 2\<rparr>) = None
   \<and> maxBody example_config
       < int (length (body_of ((post [''ab'', ''c'', ''de'', ''f''])\<lparr>file_steps := 2\<rparr>)))
   \<and> fst (handlePostWebhook example_config example_runtime arrival1
             ((post [''ab'', ''c'', ''de'', ''f''])\<lparr>file_steps := 2\<rparr>) empty_world)
       = sendText 413 (''payload too large'' @ nl)
   \<and> files (snd (handlePostWebhook example_config example_runtime arrival1
                    ((post [''ab'', ''c'', ''de'', ''f''])\<lparr>file_steps := 2\<rparr>) empty_world)) = []
   \<and> maxBody zero_limit_config < int (length (body_of (post [''abc''])))
   \<and> fst (handlePostWebhook zero_limit_config example_runtime arrival1 (post [''abc''])
             empty_world)
       = sendText 400 (''incomplete body'' @ nl)"
proof -
  let ?req = "(post [''ab'', ''c'', ''de'', ''f''])\<lparr>file_steps := 2\<rparr>"
  have 1: "requireToken example_config ?req = None"
    by (simp add: requireToken_def example_config_def post_def)
  have 2: "case content_length ?req of
           None \<Rightarrow> True
         | Some h \<Rightarrow> is_digits (trim h) \<and> length (body_of ?req) \<le> parseInt (trim h)"
    by (simp add: post_def)
  have 3: "maxBody example_config < int (length (body_of ?req))"
    by (simp add: example_config_def post_def body_of_def)
  have 5: "faults empty_world = []" by (simp add: empty_world_def)
  have 6: "\<not> present (bodyName_for arrival1 @ ''.tmp'') empty_world"
    by (simp add: present_def empty_world_def)
  have z1: "requireToken zero_limit_config (post [''abc'']) = None"
    by (simp add: requireToken_def example_config_def zero_limit_config_def post_def)
  have z2: "case content_length (post [''abc'']) of
           None \<Rightarrow> True
         | Some h \<Rightarrow> is_digits (trim h) \<and> length (body_of (post [''abc''])) \<le> parseInt (trim h)"
    by (simp add: post_def)
  have z3: "maxBody zero_limit_config < int (length (body_of (post [''abc''])))"
    by (simp add: example_config_def zero_limit_config_def post_chunks)
  have c: "content_length ?req = None" "content_length (post [''abc'']) = None"
    by (simp_all add: post_def)
  have m: "\<not> maxBody example_config \<le> 0" "maxBody zero_limit_config \<le> 0"
    by (simp_all add: example_config_def zero_limit_config_def)
  from C6_payload_too_large [OF 1 2 3 5 6, of example_runtime]
    C6_payload_too_large [OF z1 z2 z3 5 6, of example_runtime] 1 3 z3
  show ?thesis
    by (auto simp: c m empty_world_def)
qed

text \<open>
  Claim C6 as stated fails: the limit is zero, the body has three bytes and is sent
  without a declared length; the claim wants 413, and the request is answered 400
  \<open>incomplete body\<close>.
\<close>

theorem C6_counterexample:
  "requireToken zero_limit_config (post [''abc'']) = None
   \<and> content_length (post [''abc'']) = None
   \<and> maxBody zero_limit_config < int (length (body_of (post [''abc''])))
   \<and> handlePostWebhook zero_limit_config example_runtime arrival1 (post [''abc'']) empty_world =
       (sendText 400 (''incomplete body'' @ nl),
        \<lparr>files = [], faults = [],
         trace = [Mkdir, Unlink ''20260129T061800Z-ffffffffffff.body.tmp'']\<rparr>)"
  by (simp add: example_zero_limit)
     (simp add: requireToken_def example_config_def zero_limit_config_def post_def body_of_def)

section \<open>Identifiers\<close>

text \<open>Trimming drops white space only, so a separator or two dots inside a string stay.\<close>

lemma ws_lead_token:
  assumes "ws_lead toks s \<noteq> 0"
  shows "\<exists>t \<in> set toks. prefix t s \<and> ws_lead toks s = length t"
proof -
  from assms obtain t where f: "find (\<lambda>t. prefix t s) toks = Some t"
    by (cases "find (\<lambda>t. prefix t s) toks") (auto simp: ws_lead_def)
  then have "t \<in> set toks" and "prefix t s"
    by (auto simp: find_Some_iff)
  with f show ?thesis by (auto simp: ws_lead_def)
qed

text \<open>The same holds of the bound in \<open>strip_lead\<close>.\<close>

lemma ws_lead_Nil: "ws_lead toks [] = 0"
  by (auto simp: ws_lead_def find_Some_iff split: option.splits)

lemma strip_lead_fuel:
  "length s \<le> n \<Longrightarrow> length s \<le> m \<Longrightarrow> strip_lead toks n s = strip_lead toks m s"
proof (induction n arbitrary: m s)
  case 0
  then show ?case by (cases m) (simp_all add: ws_lead_Nil)
next
  case (Suc n)
  show ?case
  proof (cases "ws_lead toks s = 0")
    case True
    then show ?thesis by (cases m) simp_all
  next
    case False
    from ws_lead_token [OF False] obtain t where
      t: "prefix t s" "ws_lead toks s = length t" by blast
    with False have pos: "0 < length t" and tl: "length t \<le> length s"
      by (auto simp: prefix_def)
    with Suc.prems obtain m' where m: "m = Suc m'" by (cases m) auto
    from pos tl Suc.prems m have "length s - length t \<le> n"
      and "length s - length t \<le> m'" by linarith+
    then have "length (drop (length t) s) \<le> n"
      and "length (drop (length t) s) \<le> m'" by simp_all
    from Suc.IH [OF this] False t(2) m show ?thesis by simp
  qed
qed

lemma strip_lead_drop:
  "\<exists>k. strip_lead toks n s = drop k s \<and> set (take k s) \<subseteq> \<Union> (set ` set toks)"
proof (induction n arbitrary: s)
  case 0
  have "strip_lead toks 0 s = drop 0 s \<and> set (take 0 s) \<subseteq> \<Union> (set ` set toks)" by simp
  then show ?case by blast
next
  case (Suc n)
  show ?case
  proof (cases "ws_lead toks s = 0")
    case True
    then have "strip_lead toks (Suc n) s = drop 0 s \<and> set (take 0 s) \<subseteq> \<Union> (set ` set toks)"
      by simp
    then show ?thesis by blast
  next
    case False
    from ws_lead_token [OF False] obtain t where
      t: "t \<in> set toks" "prefix t s" "ws_lead toks s = length t" by blast
    from Suc.IH [of "drop (length t) s"] obtain k where
      k: "strip_lead toks n (drop (length t) s) = drop k (drop (length t) s)"
         "set (take k (drop (length t) s)) \<subseteq> \<Union> (set ` set toks)" by blast
    from t(2) have tk: "take (length t) s = t" by (auto simp: prefix_def)
    have "take (k + length t) s = take (length t + k) s" by (simp add: add.commute)
    then have "take (k + length t) s = take (length t) s @ take k (drop (length t) s)"
      by (simp add: take_add)
    with tk k(2) t(1) have "set (take (k + length t) s) \<subseteq> \<Union> (set ` set toks)" by auto
    moreover from False t(3) k(1)
    have "strip_lead toks (Suc n) s = drop (k + length t) s" by simp
    ultimately show ?thesis by blast
  qed
qed

lemma sublist_skip_prefix:
  assumes "set pre \<subseteq> W" and "p \<noteq> []" and "hd p \<notin> W" and "sublist p (pre @ s)"
  shows "sublist p s"
  using assms
proof (induction pre)
  case Nil
  then show ?case by simp
next
  case (Cons x pre)
  from Cons.prems(2,3) Cons.prems(1) have "\<not> prefix p (x # pre @ s)"
    by (cases p) auto
  with Cons.prems(4) have "sublist p (pre @ s)" by (simp add: sublist_Cons_right)
  with Cons show ?case by simp
qed

lemma trimStart_keeps:
  assumes "p \<noteq> []" and "hd p \<notin> ws_bytes" and "sublist p s"
  shows "sublist p (trimStart s)"
proof -
  from strip_lead_drop [of ws_tokens "length s" s] obtain k where
    k: "trimStart s = drop k s" "set (take k s) \<subseteq> ws_bytes"
    by (auto simp: trimStart_def ws_bytes_def)
  from assms(3) have "sublist p (take k s @ drop k s)" by simp
  from sublist_skip_prefix [OF k(2) assms(1,2) this] k(1) show ?thesis by simp
qed

lemma trimEnd_keeps:
  assumes "p \<noteq> []" and "last p \<notin> ws_bytes" and "sublist p s"
  shows "sublist p (trimEnd s)"
proof -
  from strip_lead_drop [of "map rev ws_tokens" "length s" "rev s"] obtain k where
    k: "strip_lead (map rev ws_tokens) (length s) (rev s) = drop k (rev s)"
       "set (take k (rev s)) \<subseteq> \<Union> (set ` set (map rev ws_tokens))" by blast
  have "\<Union> (set ` set (map rev ws_tokens)) = ws_bytes" by (simp add: ws_bytes_def)
  with k(2) have w: "set (take k (rev s)) \<subseteq> ws_bytes" by simp
  from assms(1,2) have h: "rev p \<noteq> []" "hd (rev p) \<notin> ws_bytes" by (simp_all add: hd_rev)
  from assms(3) have "sublist (rev p) (take k (rev s) @ drop k (rev s))" by simp
  from sublist_skip_prefix [OF w h this] have "sublist (rev p) (drop k (rev s))" .
  then have "sublist p (rev (drop k (rev s)))" by (simp add: sublist_rev_left)
  with k(1) show ?thesis by (simp add: trimEnd_def)
qed

lemma trim_keeps:
  assumes "p \<noteq> []" and "hd p \<notin> ws_bytes" and "last p \<notin> ws_bytes" and "str_includes s p"
  shows "str_includes (trim s) p"
  using assms by (simp add: str_includes_def trim_def trimStart_keeps trimEnd_keeps)

lemma not_ws:
  "CHR ''/'' \<notin> ws_bytes" "CHR ''.'' \<notin> ws_bytes" "CHR 0x5C \<notin> ws_bytes"
  by (simp_all add: ws_bytes_def ws_tokens_def)

lemma trim_keeps_separators:
  "str_includes s ''/'' \<Longrightarrow> str_includes (trim s) ''/''"
  "str_includes s backslash \<Longrightarrow> str_includes (trim s) backslash"
  "str_includes s ''..'' \<Longrightarrow> str_includes (trim s) ''..''"
  by (simp_all add: trim_keeps not_ws backslash_def)

lemma invalidId_trimmed:
  assumes "str_includes i ''/'' \<or> str_includes i backslash \<or> str_includes i ''..''
           \<or> str_includes i ''../''"
  shows "invalidId (trim i)"
proof -
  have "str_includes i ''..''" if "str_includes i ''../''"
  proof -
    have "sublist ''..'' ''../''" by (simp add: sublist_code)
    with that show ?thesis
      unfolding str_includes_def using sublist_order.order_trans by blast
  qed
  with assms have "str_includes i ''/'' \<or> str_includes i backslash \<or> str_includes i ''..''"
    by blast
  then have "str_includes (trim (trim i)) ''/'' \<or> str_includes (trim (trim i)) backslash
             \<or> str_includes (trim (trim i)) ''..''"
    by (auto dest!: trim_keeps_separators)
  then show ?thesis by (auto simp: invalidId_def Let_def)
qed

text \<open>
  Claim C9. An \<open>id\<close> that contains \<open>../\<close>, two dots, a slash or a backslash is answered
  400 \<open>invalid id\<close> by \<open>handleGetView\<close> and by \<open>handleGetRaw\<close>, for a request that passes
  the token gate (no token is asked for reads, or the token is right), and the world
  returned is the world given: no file system operation has been attempted, the trace is
  unchanged.
\<close>

theorem C9_invalid_id:
  assumes "query_id req = Some i"
    and "str_includes i ''../'' \<or> str_includes i ''..'' \<or> str_includes i ''/''
         \<or> str_includes i backslash"
    and "readTokenRequired cfg \<longrightarrow> requireToken cfg req = None"
  shows "handleGetView cfg rt rd req w = (sendText 400 (''invalid id'' @ nl), w)
         \<and> handleGetRaw cfg rt req w = (sendText 400 (''invalid id'' @ nl), w)"
proof -
  from assms(2) have "invalidId (trim i)" by (intro invalidId_trimmed) blast
  with assms(1,3) have "load_record cfg rt req w = (Inl (sendText 400 (''invalid id'' @ nl)), w)"
    by (auto simp: load_record_def Let_def)
  then show ?thesis by (simp add: handleGetView_def handleGetRaw_def)
qed

text \<open>The theorem at the id \<open>../secret.json\<close>.\<close>

theorem C9_invalid_id_witness:
  "str_includes ''../secret.json'' ''../''
   \<and> handleGetView example_config example_runtime example_renderer
        (get_request ''../secret.json'') empty_world
       = (sendText 400 (''invalid id'' @ nl), empty_world)
   \<and> trace (snd (handleGetRaw example_config example_runtime (get_request ''../secret.json'')
                    empty_world)) = []"
proof -
  have 1: "query_id (get_request ''../secret.json'') = Some ''../secret.json''"
    by (simp add: get_request_def)
  have 2: "str_includes ''../secret.json'' ''../''"
    by (simp add: str_includes_def sublist_code)
  then have 3: "str_includes ''../secret.json'' ''../'' \<or> str_includes ''../secret.json'' ''..''
       \<or> str_includes ''../secret.json'' ''/'' \<or> str_includes ''../secret.json'' backslash"
    by blast
  have 4: "readTokenRequired example_config
           \<longrightarrow> requireToken example_config (get_request ''../secret.json'') = None"
    by (simp add: example_config_def)
  from C9_invalid_id [OF 1 3 4, of example_runtime example_renderer empty_world] 2
  show ?thesis by (simp add: empty_world_def)
qed

section \<open>The order of names\<close>

text \<open>
  The bound on the number of steps of \<open>code_units\<close> is never reached either. For a name
  made of ASCII characters, as are the names the service gives its files, the code units
  are the bytes.
\<close>

lemma code_units_fuel:
  "length bs \<le> n \<Longrightarrow> length bs \<le> m \<Longrightarrow> code_units n bs = code_units m bs"
proof (induction n arbitrary: m bs)
  case 0
  then show ?case by (cases m) simp_all
next
  case (Suc n)
  show ?case
  proof (cases bs)
    case Nil
    then show ?thesis by (cases m) simp_all
  next
    case (Cons b rest)
    with Suc.prems obtain m' where m: "m = Suc m'" and le: "length rest \<le> m'"
      by (cases m) auto
    from Suc.prems Cons have len: "length rest \<le> n" by simp
    have r: "code_units n (drop k rest) = code_units m' (drop k rest)" for k
      using len le by (intro Suc.IH) simp_all
    from r [of 0] have r0: "code_units n rest = code_units m' rest" by simp
    show ?thesis
      unfolding Cons m
      by (simp add: r r0 split: option.splits prod.splits bool.splits)
  qed
qed

lemma code_units_ascii:
  "length s \<le> n \<Longrightarrow> \<forall>c \<in> set s. of_char c < (128::nat) \<Longrightarrow> code_units n s = map of_char s"
proof (induction n arbitrary: s)
  case 0
  then show ?case by simp
next
  case (Suc n)
  show ?case
  proof (cases s)
    case Nil
    then show ?thesis by simp
  next
    case (Cons b rest)
    with Suc.prems have b: "of_char b < (128::nat)" and r: "\<forall>c \<in> set rest. of_char c < (128::nat)"
      and l: "length rest \<le> n" by simp_all
    from b have ld: "lead (of_char b) = Some (0x80, 0xBF, 0)" by (simp add: lead_def)
    have i: "(of_char b :: int) = int (of_char b)" by (simp only: of_nat_of_char)
    with b have lt: "(of_char b :: int) < 128" and ge: "0 \<le> (of_char b :: int)" by simp_all
    then have cp: "code_point b [] = of_char b"
      by (simp add: code_point_def)
    from lt cp have u: "utf16 (code_point b []) = [of_char b]" by (simp add: utf16_def)
    from Suc.IH [OF l r] ld u Cons show ?thesis by simp
  qed
qed

lemma utf16_units_ascii:
  "\<forall>c \<in> set s. of_char c < (128::nat) \<Longrightarrow> utf16_units s = map of_char s"
  by (simp add: utf16_units_def code_units_ascii)

text \<open>
  Above U+FFFF the order of code units is not the order of the bytes: U+FF5A is the bytes
  EF BD 9A and the code unit FF5A, U+1F600 is the bytes F0 9F 98 80 and the surrogate pair
  D83D DE00, which sorts below.
\<close>

lemma example_supplementary_order:
  "newest_first [[CHR 0xF0, CHR 0x9F, CHR 0x98, CHR 0x80] @ ''.json'',
                 [CHR 0xEF, CHR 0xBD, CHR 0x9A] @ ''.json'']
     = [[CHR 0xEF, CHR 0xBD, CHR 0x9A] @ ''.json'',
        [CHR 0xF0, CHR 0x9F, CHR 0x98, CHR 0x80] @ ''.json'']"
  by code_simp

section \<open>Eviction\<close>

lemma unlink_facts:
  "faults (snd (fs_unlink n w)) = faults w"
  "trace (snd (fs_unlink n w)) = trace w @ [Unlink n]"
  "files (snd (fs_unlink n w)) = files w \<or> files (snd (fs_unlink n w)) = AList.delete n (files w)"
  "\<not> fails (Unlink n) w \<Longrightarrow> files (snd (fs_unlink n w)) = AList.delete n (files w)"
  by (auto simp: fs_unlink_def performs_def present_def map_of_eq_None_iff)

lemma read_file_facts:
  "files (snd (fs_read_file n w)) = files w"
  "faults (snd (fs_read_file n w)) = faults w"
  "trace (snd (fs_read_file n w)) = trace w @ [ReadFile n]"
  by (simp_all add: fs_read_file_def performs_def)

text \<open>
  A \<open>body_file\<close> whose conversion to a string throws is read as the empty name: no body
  is unlinked for it.
\<close>

lemma bodyName_of_throws:
  assumes "JSON_parse rt (toString_utf8 buf) = Some (JObj [(''body_file'', JObj kvs)])"
    and "map_of kvs ''toString'' = Some v"
  shows "bodyName_of rt (Some buf) = []"
  using assms by (simp add: bodyName_of_def get_prop_def String_or_empty_def)

text \<open>What one round of the eviction loop does.\<close>

lemma evict_facts:
  "faults (evict rt n w) = faults w"
  "trace (evict rt n w) =
     trace w @ [ReadFile n, Unlink n]
       @ (if plain_name (bodyName_of rt (fst (fs_read_file n w)))
          then [Unlink (bodyName_of rt (fst (fs_read_file n w)))] else [])"
  "set (files (evict rt n w)) \<subseteq> set (files w)"
  "\<not> fails (Unlink n) w \<Longrightarrow> n \<notin> fst ` set (files (evict rt n w))"
proof -
  obtain c w1 where r: "fs_read_file n w = (c, w1)" by (cases "fs_read_file n w")
  then have w1: "w1 = snd (fs_read_file n w)" and c: "c = fst (fs_read_file n w)" by simp_all
  define w2 where "w2 = snd (fs_unlink n w1)"
  define b where "b = bodyName_of rt c"
  have e: "evict rt n w = (if plain_name b then snd (fs_unlink b w2) else w2)"
    by (auto simp: evict_def r Let_def b_def w2_def plain_name_def)
  have s2: "set (files w2) \<subseteq> set (files w)"
    using unlink_facts(3) [of n w1] read_file_facts(1) [of n w]
    by (auto simp: w2_def w1 AList.delete_eq)
  have s3: "set (files (snd (fs_unlink b w2))) \<subseteq> set (files w2)"
    using unlink_facts(3) [of b w2] by (auto simp: AList.delete_eq)
  show "faults (evict rt n w) = faults w"
    by (simp add: e w2_def w1 unlink_facts read_file_facts)
  show "trace (evict rt n w) =
     trace w @ [ReadFile n, Unlink n]
       @ (if plain_name (bodyName_of rt (fst (fs_read_file n w)))
          then [Unlink (bodyName_of rt (fst (fs_read_file n w)))] else [])"
    by (simp add: e w2_def w1 unlink_facts read_file_facts b_def c)
  from s2 s3 show "set (files (evict rt n w)) \<subseteq> set (files w)"
    by (auto simp: e)
  show "n \<notin> fst ` set (files (evict rt n w))" if "\<not> fails (Unlink n) w"
  proof -
    from that have "\<not> fails (Unlink n) w1" by (simp add: fails_def w1 read_file_facts)
    then have "files w2 = AList.delete n (files w1)" by (simp add: w2_def unlink_facts)
    then have "n \<notin> fst ` set (files w2)" by (simp add: delete_notin_dom)
    with s3 show ?thesis by (auto simp: e)
  qed
qed

lemma evict_all_facts:
  "faults (evict_all rt ns w) = faults w"
  "set (files (evict_all rt ns w)) \<subseteq> set (files w)"
  "\<exists>T. trace (evict_all rt ns w) = trace w @ T
       \<and> (\<forall>x \<in> set T. (\<exists>n \<in> set ns. x = ReadFile n \<or> x = Unlink n)
                        \<or> (\<exists>b. x = Unlink b \<and> plain_name b))"
proof -
  show "faults (evict_all rt ns w) = faults w"
    by (induction ns arbitrary: w) (simp_all add: evict_facts)
  show "set (files (evict_all rt ns w)) \<subseteq> set (files w)"
  proof (induction ns arbitrary: w)
    case Nil
    show ?case by simp
  next
    case (Cons n ns)
    from Cons [of "evict rt n w"] evict_facts(3) [of rt n w] show ?case by auto
  qed
  show "\<exists>T. trace (evict_all rt ns w) = trace w @ T
       \<and> (\<forall>x \<in> set T. (\<exists>n \<in> set ns. x = ReadFile n \<or> x = Unlink n)
                        \<or> (\<exists>b. x = Unlink b \<and> plain_name b))"
  proof (induction ns arbitrary: w)
    case Nil
    show ?case by simp
  next
    case (Cons n ns)
    from Cons [of "evict rt n w"] obtain T where
      T: "trace (evict_all rt ns (evict rt n w)) = trace (evict rt n w) @ T"
         "\<forall>x \<in> set T. (\<exists>n \<in> set ns. x = ReadFile n \<or> x = Unlink n)
                        \<or> (\<exists>b. x = Unlink b \<and> plain_name b)" by blast
    let ?b = "bodyName_of rt (fst (fs_read_file n w))"
    let ?T = "[ReadFile n, Unlink n] @ (if plain_name ?b then [Unlink ?b] else []) @ T"
    from T(1) have "trace (evict_all rt (n # ns) w) = trace w @ ?T"
      by (simp add: evict_facts(2))
    moreover from T(2)
    have "\<forall>x \<in> set ?T. (\<exists>m \<in> set (n # ns). x = ReadFile m \<or> x = Unlink m)
                        \<or> (\<exists>b. x = Unlink b \<and> plain_name b)"
      by auto
    ultimately show ?case by blast
  qed
qed

lemma evict_all_removes:
  assumes "n \<in> set ns" and "\<not> fails (Unlink n) w"
  shows "n \<notin> fst ` set (files (evict_all rt ns w))"
  using assms
proof (induction ns arbitrary: w)
  case Nil
  then show ?case by simp
next
  case (Cons m ns)
  show ?case
  proof (cases "n = m")
    case True
    from Cons.prems(2) True have "m \<notin> fst ` set (files (evict rt m w))"
      by (simp add: evict_facts(4))
    with evict_all_facts(2) [of rt ns "evict rt m w"] True show ?thesis by auto
  next
    case False
    with Cons.prems have "n \<in> set ns" and "\<not> fails (Unlink n) (evict rt m w)"
      by (simp_all add: fails_def evict_facts(1))
    from Cons.IH [OF this] show ?thesis by simp
  qed
qed

text \<open>
  Claim C10. The stale records are the record documents after the first \<open>maxRecords\<close> in
  the order of \<open>names.sort().reverse()\<close>. The file system operations of a retention pass
  are: one \<open>readdir\<close>; for a stale record, reading its document and unlinking it; and
  unlinking a body whose name, the trimmed \<open>body_file\<close> read from the document, is not
  empty and contains neither two dots nor a slash nor a backslash. No other path is ever unlinked. Every stale record
  whose unlink does not fail is gone afterwards, whatever its \<open>body_file\<close> says. In a
  round of the loop where the name read does not pass the check, the document is read
  and unlinked and nothing else happens.
\<close>

theorem C10_retention_checks_body_file:
  "(\<exists>T. trace (enforceRetention cfg rt w) = trace w @ T
        \<and> (\<forall>x \<in> set T. x = Readdir
                         \<or> (\<exists>n \<in> set (stale_records cfg w). x = ReadFile n \<or> x = Unlink n)
                         \<or> (\<exists>b. x = Unlink b \<and> plain_name b)))
   \<and> (\<forall>n \<in> set (stale_records cfg w).
          \<not> fails (Unlink n) w \<longrightarrow> \<not> present n (enforceRetention cfg rt w))
   \<and> (\<forall>n v. \<not> plain_name (bodyName_of rt (fst (fs_read_file n v)))
          \<longrightarrow> trace (evict rt n v) = trace v @ [ReadFile n, Unlink n])"
proof (intro conjI)
  show "\<forall>n v. \<not> plain_name (bodyName_of rt (fst (fs_read_file n v)))
          \<longrightarrow> trace (evict rt n v) = trace v @ [ReadFile n, Unlink n]"
    by (simp add: evict_facts(2))
next
  show "\<exists>T. trace (enforceRetention cfg rt w) = trace w @ T
        \<and> (\<forall>x \<in> set T. x = Readdir
                         \<or> (\<exists>n \<in> set (stale_records cfg w). x = ReadFile n \<or> x = Unlink n)
                         \<or> (\<exists>b. x = Unlink b \<and> plain_name b))"
  proof (cases "maxRecords cfg \<le> 0")
    case True
    then have "trace (enforceRetention cfg rt w) = trace w @ []"
      by (simp add: enforceRetention_def)
    then show ?thesis by (metis empty_iff empty_set)
  next
    case keep: False
    show ?thesis
    proof (cases "fails Readdir w")
      case True
      with keep have "trace (enforceRetention cfg rt w) = trace w @ [Readdir]"
        by (simp add: enforceRetention_def fs_readdir_def performs_def)
      then show ?thesis by (metis empty_iff empty_set set_ConsD)
    next
      case False
      let ?w1 = "performs Readdir w"
      from keep False have s: "stale_records cfg w = drop (nat (maxRecords cfg)) (listable w)"
        by (simp add: stale_records_def)
      from keep False have e: "enforceRetention cfg rt w = evict_all rt (stale_records cfg w) ?w1"
        by (simp add: enforceRetention_def fs_readdir_def s listable_def Let_def)
      from evict_all_facts(3) [of rt "stale_records cfg w" ?w1] obtain T where
        T: "trace (evict_all rt (stale_records cfg w) ?w1) = trace ?w1 @ T"
           "\<forall>x \<in> set T. (\<exists>n \<in> set (stale_records cfg w). x = ReadFile n \<or> x = Unlink n)
                        \<or> (\<exists>b. x = Unlink b \<and> plain_name b)" by blast
      from e T(1) have "trace (enforceRetention cfg rt w) = trace w @ (Readdir # T)"
        by (simp add: performs_def)
      moreover from T(2)
      have "\<forall>x \<in> set (Readdir # T). x = Readdir
              \<or> (\<exists>n \<in> set (stale_records cfg w). x = ReadFile n \<or> x = Unlink n)
              \<or> (\<exists>b. x = Unlink b \<and> plain_name b)" by auto
      ultimately show ?thesis by blast
    qed
  qed
next
  show "\<forall>n \<in> set (stale_records cfg w).
          \<not> fails (Unlink n) w \<longrightarrow> \<not> present n (enforceRetention cfg rt w)"
  proof (intro ballI impI)
    fix n assume n: "n \<in> set (stale_records cfg w)" and nf: "\<not> fails (Unlink n) w"
    from n have keep: "\<not> maxRecords cfg \<le> 0" and rd: "\<not> fails Readdir w"
      by (auto simp: stale_records_def split: if_splits)
    let ?w1 = "performs Readdir w"
    from keep rd have e: "enforceRetention cfg rt w = evict_all rt (stale_records cfg w) ?w1"
      by (simp add: enforceRetention_def fs_readdir_def stale_records_def listable_def Let_def)
    from nf have "\<not> fails (Unlink n) ?w1" by (simp add: fails_def performs_def)
    from evict_all_removes [OF n this] e show "\<not> present n (enforceRetention cfg rt w)"
      by (simp add: not_present_iff)
  qed
qed

text \<open>
  The theorem at that directory with one record to keep: the older record is stale, its
  \<open>body_file\<close> is \<open>../x.body\<close>; the pass reads and unlinks the document and unlinks
  nothing else.
\<close>

lemma example_newest_first: "newest_first [''a.json'', ''b.json'', ''b.body''] = [''b.json'', ''a.json'']"
  by code_simp

lemma example_hostile:
  "enforceRetention example_config example_runtime hostile_world =
     \<lparr>files = [(''b.json'', ''body_file=b.body''), (''b.body'', ''abc'')], faults = [],
      trace = [Readdir, ReadFile ''a.json'', Unlink ''a.json'']\<rparr>"
  by (simp add: enforceRetention_def evict_def bodyName_of_def example_newest_first fs_defs example_defs
      hostile_world_def Let_def toString_utf8_def lead_def get_prop_def String_or_empty_def
      trim_defs str_includes_def sublist_code backslash_def AList.delete_eq)

theorem C10_retention_checks_body_file_witness:
  "stale_records example_config hostile_world = [''a.json'']
   \<and> bodyName_of example_runtime (Some ''body_file=../x.body'') = ''../x.body''
   \<and> trace (enforceRetention example_config example_runtime hostile_world)
       = [Readdir, ReadFile ''a.json'', Unlink ''a.json'']
   \<and> \<not> present ''a.json'' (enforceRetention example_config example_runtime hostile_world)"
proof -
  have s: "stale_records example_config hostile_world = [''a.json'']"
    by (simp add: stale_records_def listable_def example_config_def hostile_world_def example_newest_first
        fails_def)
  have b: "bodyName_of example_runtime (Some ''body_file=../x.body'') = ''../x.body''"
    by (simp add: bodyName_of_def example_defs toString_utf8_def lead_def get_prop_def
        String_or_empty_def trim_defs)
  have f: "\<not> fails (Unlink ''a.json'') hostile_world"
    by (simp add: fails_def hostile_world_def)
  from C10_retention_checks_body_file [of example_config example_runtime hostile_world] s f
  have "\<not> present ''a.json'' (enforceRetention example_config example_runtime hostile_world)"
    by simp
  with s b show ?thesis by (simp add: example_hostile)
qed

section \<open>The listing\<close>

lemma read_after_stat: "fst (fs_read_file n (snd (fs_stat m w))) = fst (fs_read_file n w)"
  by (simp add: fs_read_file_def fs_stat_def performs_def fails_def)

lemma index_row_of_facts:
  "row_name (fst (index_row_of rt rd n w)) = n"
  "files (snd (index_row_of rt rd n w)) = files w"
  "faults (snd (index_row_of rt rd n w)) = faults w"
  "row_size (fst (index_row_of rt rd n w))
     = formatBytes rd (case fst (fs_stat n w) of None \<Rightarrow> 0 | Some k \<Rightarrow> k)"
  "(row_when (fst (index_row_of rt rd n w)), row_title (fst (index_row_of rt rd n w)))
     = (case describe_record rt rd (fst (fs_read_file n w)) of
          None \<Rightarrow> ([], untitled) | Some x \<Rightarrow> x)"
proof -
  show "row_size (fst (index_row_of rt rd n w))
     = formatBytes rd (case fst (fs_stat n w) of None \<Rightarrow> 0 | Some k \<Rightarrow> k)"
    by (simp add: index_row_of_def Let_def split_beta)
  show "(row_when (fst (index_row_of rt rd n w)), row_title (fst (index_row_of rt rd n w)))
     = (case describe_record rt rd (fst (fs_read_file n w)) of
          None \<Rightarrow> ([], untitled) | Some x \<Rightarrow> x)"
    by (simp add: index_row_of_def Let_def split_beta read_after_stat)
  show "row_name (fst (index_row_of rt rd n w)) = n"
    by (simp add: index_row_of_def Let_def split_beta)
  show "files (snd (index_row_of rt rd n w)) = files w"
    by (simp add: index_row_of_def Let_def split_beta fs_stat_def fs_read_file_def performs_def)
  show "faults (snd (index_row_of rt rd n w)) = faults w"
    by (simp add: index_row_of_def Let_def split_beta fs_stat_def fs_read_file_def performs_def)
qed



lemma index_rows_faults: "faults (snd (index_rows rt rd ns w)) = faults w"
  by (induction ns arbitrary: w) (simp_all add: split_beta index_row_of_facts)










section \<open>Rejected and failed ingests\<close>

lemma update_grows: "map_of al k = Some old \<Longrightarrow> \<exists>x. al = AList.update k (old @ x) al"
  by (rule exI [of _ "[]"]) (simp add: update_same)

lemma write_chunks_files:
  assumes "map_of (files w) out = Some old"
  shows "\<exists>x. files (snd (write_chunks out cs w)) = AList.update out (old @ x) (files w)
             \<and> faults (snd (write_chunks out cs w)) = faults w"
  using assms
proof (induction cs arbitrary: w old)
  case Nil
  from update_grows [OF Nil] show ?case by simp
next
  case (Cons c cs)
  show ?case
  proof (cases "fails (WriteChunk out) w")
    case True
    with update_grows [OF Cons.prems] show ?thesis
      by (simp add: fs_write_chunk_def performs_def)
  next
    case False
    define w1 where "w1 = snd (fs_write_chunk out c w)"
    from False Cons.prems have w1: "fs_write_chunk out c w = (True, w1)"
      and f1: "files w1 = AList.update out (old @ c) (files w)"
      and fa1: "faults w1 = faults w"
      by (simp_all add: w1_def fs_write_chunk_def performs_def)
    from f1 have "map_of (files w1) out = Some (old @ c)" by (simp add: update_conv')
    from Cons.IH [OF this] obtain x where
      "files (snd (write_chunks out cs w1)) = AList.update out ((old @ c) @ x) (files w1)"
      "faults (snd (write_chunks out cs w1)) = faults w1" by blast
    with w1 f1 fa1 have
      "files (snd (write_chunks out (c # cs) w)) = AList.update out (old @ (c @ x)) (files w)
       \<and> faults (snd (write_chunks out (c # cs) w)) = faults w"
      by simp
    then show ?thesis by blast
  qed
qed

text \<open>
  However the pipeline ends, and whatever the file stream had completed, at most the
  temporary file has been added.
\<close>

lemma pipeline_files:
  assumes "\<not> present out w"
  shows "(files (snd (pipeline req M e P out w)) = files w
          \<or> (\<exists>x. files (snd (pipeline req M e P out w)) = files w @ [(out, x)]))
         \<and> faults (snd (pipeline req M e P out w)) = faults w"
proof (cases "fails (OpenExcl out) w")
  case True
  then have "fs_open_excl out w = (False, performs (OpenExcl out) w)"
    by (simp add: fs_open_excl_def)
  then have "snd (pipeline req M e P out w) = performs (OpenExcl out) w"
    by (simp add: pipeline_def split: prod.splits sum.splits)
  then show ?thesis by (simp add: performs_def)
next
  case False
  define w1 where "w1 = (performs (OpenExcl out) w)\<lparr>files := files w @ [(out, [])]\<rparr>"
  from False assms have op: "fs_open_excl out w = (True, w1)"
    by (simp add: fs_open_excl_def w1_def)
  from assms have nk: "out \<notin> fst ` set (files w)" by (simp add: not_present_iff)
  have f1: "files w1 = files w @ [(out, [])]" and fa1: "faults w1 = faults w"
    by (simp_all add: w1_def performs_def)
  from f1 map_of_appended [OF nk] have m1: "map_of (files w1) out = Some []" by simp
  have any: "(\<exists>x. files (snd (write_chunks out cs w1)) = files w @ [(out, x)])
             \<and> faults (snd (write_chunks out cs w1)) = faults w" for cs
  proof -
    from write_chunks_files [OF m1, of cs] obtain x where
      x: "files (snd (write_chunks out cs w1)) = AList.update out ([] @ x) (files w1)"
         "faults (snd (write_chunks out cs w1)) = faults w1"
      by blast
    from nk f1 have "AList.update out x (files w1) = files w @ [(out, x)]"
      by (simp add: update_fresh [symmetric] update_twice)
    with x fa1 show ?thesis by simp
  qed
  obtain passed r where fd: "feed M e P (chunks req) tap0 = (passed, r)"
    by (cases "feed M e P (chunks req) tap0")
  have "snd (pipeline req M e P out w) = snd (write_chunks out passed w1)
        \<or> snd (pipeline req M e P out w)
            = snd (write_chunks out (take (file_steps req - 1) passed) w1)"
    using op fd by (simp add: pipeline_def split: prod.splits sum.splits bool.splits)
  with any [of passed] any [of "take (file_steps req - 1) passed"] show ?thesis
    by auto
qed

lemma writeBodyToFile_files:
  assumes "\<not> present out w"
  shows "(files (snd (writeBodyToFile cfg rt req out M e w)) = files w
          \<or> (\<exists>x. files (snd (writeBodyToFile cfg rt req out M e w)) = files w @ [(out, x)]))
         \<and> faults (snd (writeBodyToFile cfg rt req out M e w)) = faults w"
proof (cases "0 < M")
  case False
  then show ?thesis by (simp add: writeBodyToFile_def)
next
  case True
  then have "snd (writeBodyToFile cfg rt req out M e w)
      = snd (pipeline req M e (previewLimit cfg) out w)"
    by (simp add: writeBodyToFile_def split: prod.splits sum.splits)
  with pipeline_files [OF assms, of req M e "previewLimit cfg"] show ?thesis by simp
qed

lemma unlink_cleans:
  assumes "files v = files w \<or> (\<exists>x. files v = files w @ [(n, x)])"
    and "n \<notin> fst ` set (files w)" and "\<not> fails (Unlink n) v"
  shows "files (snd (fs_unlink n v)) = files w"
  using assms
  by (auto simp: fs_unlink_def performs_def present_def map_of_eq_None_iff delete_appended)

lemma receive_body_Inl:
  assumes "receive_body cfg rt req out e w = (Inl r, w')"
    and "\<not> present out w" and "\<not> fails (Unlink out) w"
  shows "files w' = files w \<and> faults w' = faults w"
proof -
  let ?v = "snd (writeBodyToFile cfg rt req out (maxBody cfg) e w)"
  from assms(1) have w': "w' = snd (fs_unlink out ?v)"
    by (auto simp: receive_body_def split: prod.splits sum.splits if_splits)
  note W = writeBodyToFile_files [OF assms(2), of cfg rt req "maxBody cfg" e]
  from assms(2) have nk: "out \<notin> fst ` set (files w)" by (simp add: not_present_iff)
  from W assms(3) have "\<not> fails (Unlink out) ?v" by (simp add: fails_def)
  with W nk have "files (snd (fs_unlink out ?v)) = files w"
    by (intro unlink_cleans) auto
  moreover from W have "faults (snd (fs_unlink out ?v)) = faults w"
    by (simp add: unlink_facts)
  ultimately show ?thesis by (simp add: w')
qed

text \<open>
  Every rejection other than the 500 leaves the directory as it was, provided the
  temporary name of the body was free and its unlink does not fail.
\<close>

lemma rejection_leaves_directory:
  assumes "ingest cfg rt a req w = (Inl r, w')" and "r \<noteq> internal_error"
    and "\<not> present (bodyName_for a @ ''.tmp'') w"
    and "\<not> fails (Unlink (bodyName_for a @ ''.tmp'')) w"
  shows "files w' = files w"
proof (cases "check_headers cfg req")
  case (Inl x)
  with assms(1) show ?thesis by (simp add: ingest_def)
next
  case (Inr e)
  let ?tb = "bodyName_for a @ ''.tmp''"
  from assms(1,2) Inr have mk: "fs_mkdir w = (True, performs Mkdir w)"
    by (auto simp: ingest_def Let_def fs_mkdir_def split: if_splits)
  let ?w0 = "performs Mkdir w"
  from assms(1,2) Inr mk obtain x where
    rb: "receive_body cfg rt req ?tb e ?w0 = (Inl x, w')"
    by (cases "receive_body cfg rt req ?tb e ?w0")
       (auto simp: ingest_def Let_def split: sum.splits prod.splits bool.splits)
  from assms(3,4) have "\<not> present ?tb ?w0" and "\<not> fails (Unlink ?tb) ?w0"
    by (simp_all add: present_def fails_def performs_def)
  from receive_body_Inl [OF rb this] show ?thesis by (simp add: performs_def)
qed

text \<open>
  Claim C1 says that every ingest that fails, an I/O error during the write path
  included, leaves the store directory unchanged and never commits the body without its
  record. The rejections with 400, 401 and 413 do (\<open>rejection_leaves_directory\<close>). An
  error after the body has been renamed does not: here the write of the record's
  temporary file fails, the request is answered 500, and the body file stays published
  with no record beside it.
\<close>

theorem C1_record_write_failure:
  "handlePostWebhook example_config example_runtime arrival1 (post [''ab'', ''c'']) failing_disk
   = (internal_error,
      \<lparr>files = [(''20260129T061800Z-ffffffffffff.body'', ''abc'')],
       faults = [WriteFile ''20260129T061800Z-ffffffffffff.json.tmp''],
       trace = [Mkdir, OpenExcl ''20260129T061800Z-ffffffffffff.body.tmp'',
          WriteChunk ''20260129T061800Z-ffffffffffff.body.tmp'',
          WriteChunk ''20260129T061800Z-ffffffffffff.body.tmp'',
          Rename ''20260129T061800Z-ffffffffffff.body.tmp''
            ''20260129T061800Z-ffffffffffff.body'',
          WriteFile ''20260129T061800Z-ffffffffffff.json.tmp'']\<rparr>)"
  by (simp add: post_defs fs_defs example_defs failing_disk_def Let_def)

text \<open>
  Claim C8 says that both temporary files are opened create-exclusive, so that an existing
  temporary path makes the ingest fail. For the body it does: with the body's temporary
  name taken the request is answered 400 (and the cleanup then unlinks the file that was
  there). For the record it does not: with the record's temporary name taken the request
  is answered 200, the file that was there is overwritten by \<open>writeFile\<close> and renamed to
  the record's name.
\<close>

theorem C8_record_temp_overwritten:
  "handlePostWebhook example_config example_runtime arrival1 (post [''ab'', ''c'']) leftover_world
   = (sendText 200 (''ok 20260129T061800Z-ffffffffffff.json'' @ nl),
      \<lparr>files = [(''20260129T061800Z-ffffffffffff.body'', ''abc''),
                (''20260129T061800Z-ffffffffffff.json'',
                 ''body_file=20260129T061800Z-ffffffffffff.body'')],
       faults = [],
       trace = [Mkdir, OpenExcl ''20260129T061800Z-ffffffffffff.body.tmp'',
          WriteChunk ''20260129T061800Z-ffffffffffff.body.tmp'',
          WriteChunk ''20260129T061800Z-ffffffffffff.body.tmp'',
          Rename ''20260129T061800Z-ffffffffffff.body.tmp''
            ''20260129T061800Z-ffffffffffff.body'',
          WriteFile ''20260129T061800Z-ffffffffffff.json.tmp'',
          Rename ''20260129T061800Z-ffffffffffff.json.tmp''
            ''20260129T061800Z-ffffffffffff.json'',
          Readdir]\<rparr>)
   \<and> handlePostWebhook example_config example_runtime arrival1 (post [''ab'', ''c''])
       colliding_world
     = (sendText 400 (''incomplete body'' @ nl),
        \<lparr>files = [], faults = [],
         trace = [Mkdir, OpenExcl ''20260129T061800Z-ffffffffffff.body.tmp'',
            Unlink ''20260129T061800Z-ffffffffffff.body.tmp'']\<rparr>)"
  by (simp add: post_defs fs_defs example_defs leftover_world_def colliding_world_def Let_def
      get_prop_def enforceRetention_def newest_first_def endsWith_def suffix_def)

section \<open>Retention\<close>

lemma listable_alt: "listable w = rev (sort_key utf16_units (record_names w))"
  by (simp add: listable_def newest_first_def record_names_def is_record_def [abs_def])

lemma filter_removeAll_other: "\<not> P x \<Longrightarrow> filter P (removeAll x xs) = filter P xs"
  by (induction xs) auto

lemma filter_removeAll_same: "filter P (removeAll x xs) = removeAll x (filter P xs)"
  by (induction xs) auto

lemma body_name_of_missing: "bodyName_of rt None = []"
  by (simp add: bodyName_of_def)

lemma evict_records:
  assumes "faults w = []" and "safe_docs rt w" and "is_record n"
  shows "record_names (evict rt n w) = removeAll n (record_names w)"
    and "safe_docs rt (evict rt n w)"
proof -
  let ?c = "fst (fs_read_file n w)"
  let ?b = "bodyName_of rt ?c"
  let ?w1 = "snd (fs_read_file n w)"
  let ?w2 = "snd (fs_unlink n ?w1)"
  have c: "?c = map_of (files w) n" using assms(1) by (simp add: fs_read_file_def fails_def)
  have nb: "\<not> is_record ?b"
  proof (cases "map_of (files w) n")
    case None
    with c show ?thesis by (simp add: body_name_of_missing is_record_def endsWith_def)
  next
    case (Some x)
    then have "(n, x) \<in> set (files w)" by (rule map_of_SomeD)
    with assms(2,3) Some c show ?thesis by (auto simp: safe_docs_def)
  qed
  have e: "evict rt n w = (if plain_name ?b then snd (fs_unlink ?b ?w2) else ?w2)"
    by (auto simp: evict_def Let_def plain_name_def split_beta)
  have f2: "files ?w2 = AList.delete n (files w)"
    using assms(1) by (simp add: unlink_facts(4) fails_def read_file_facts)
  have "faults ?w2 = []" using assms(1) by (simp add: unlink_facts read_file_facts)
  then have f3: "files (snd (fs_unlink ?b ?w2)) = AList.delete ?b (files ?w2)"
    by (simp add: unlink_facts(4) fails_def)
  from f2 have r2: "record_names ?w2 = removeAll n (record_names w)"
    by (simp add: record_names_def delete_keys filter_removeAll_same)
  from f3 nb have r3: "record_names (snd (fs_unlink ?b ?w2)) = record_names ?w2"
    by (simp add: record_names_def delete_keys filter_removeAll_other)
  from e r2 r3 show "record_names (evict rt n w) = removeAll n (record_names w)" by simp
  from evict_facts(3) [of rt n w] assms(2) show "safe_docs rt (evict rt n w)"
    by (auto simp: safe_docs_def)
qed

lemma evict_all_records:
  assumes "faults w = []" and "safe_docs rt w" and "\<forall>n \<in> set ns. is_record n"
  shows "record_names (evict_all rt ns w) = filter (\<lambda>x. x \<notin> set ns) (record_names w)
         \<and> safe_docs rt (evict_all rt ns w)"
  using assms
proof (induction ns arbitrary: w)
  case Nil
  then show ?case by simp
next
  case (Cons n ns)
  from Cons.prems have n: "is_record n" and ns: "\<forall>n \<in> set ns. is_record n" by simp_all
  from Cons.prems(1) have f: "faults (evict rt n w) = []" by (simp add: evict_facts)
  note E = evict_records [OF Cons.prems(1,2) n]
  from Cons.IH [OF f E(2) ns] E(1) show ?case
    by (simp add: removeAll_filter_not_eq conj_commute cong: filter_cong) (metis)
qed


lemma filter_drop_distinct:
  assumes "distinct xs"
  shows "filter (\<lambda>x. x \<notin> set (drop n xs)) xs = take n xs"
proof -
  let ?P = "\<lambda>x. x \<notin> set (drop n xs)"
  from assms have "distinct (take n xs @ drop n xs)" by simp
  then have "set (take n xs) \<inter> set (drop n xs) = {}" by (simp only: distinct_append)
  then have a: "filter ?P (take n xs) = take n xs"
    by (auto simp: filter_id_conv)
  have b: "filter ?P (drop n xs) = []"
    by (auto simp: filter_empty_conv)
  have "filter ?P xs = filter ?P (take n xs) @ filter ?P (drop n xs)"
    by (metis append_take_drop_id filter_append)
  with a b show ?thesis by simp
qed

text \<open>
  A retention pass on a directory where no operation fails keeps the newest
  \<open>maxRecords\<close> records and evicts the rest.
\<close>

lemma retention_keeps_newest:
  assumes "0 < maxRecords cfg" and "faults w = []" and "safe_docs rt w"
    and "distinct (listable w)"
  shows "listable (enforceRetention cfg rt w) = take (nat (maxRecords cfg)) (listable w)"
    and "safe_docs rt (enforceRetention cfg rt w)"
    and "faults (enforceRetention cfg rt w) = []"
proof -
  let ?w1 = "performs Readdir w"
  let ?stale = "drop (nat (maxRecords cfg)) (listable w)"
  from assms(1,2) have e: "enforceRetention cfg rt w = evict_all rt ?stale ?w1"
    by (simp add: enforceRetention_def fs_readdir_def fails_def listable_def Let_def)
  have f1: "faults ?w1 = []" and s1: "safe_docs rt ?w1"
    and r1: "record_names ?w1 = record_names w"
    using assms(2,3) by (simp_all add: performs_def safe_docs_def record_names_def)
  have "set ?stale \<subseteq> set (listable w)" by (rule set_drop_subset)
  then have st: "\<forall>n \<in> set ?stale. is_record n"
    by (auto simp: listable_alt record_names_def)
  from evict_all_records [OF f1 s1 st] r1
  have r: "record_names (evict_all rt ?stale ?w1)
             = filter (\<lambda>x. x \<notin> set ?stale) (record_names w)"
    and s: "safe_docs rt (evict_all rt ?stale ?w1)" by simp_all
  from r have "listable (evict_all rt ?stale ?w1)
      = filter (\<lambda>x. x \<notin> set ?stale) (listable w)"
    by (simp only: listable_alt filter_sort [symmetric] rev_filter)
  also have "\<dots> = take (nat (maxRecords cfg)) (listable w)"
    using assms(4) by (rule filter_drop_distinct)
  finally show "listable (enforceRetention cfg rt w) = take (nat (maxRecords cfg)) (listable w)"
    by (simp add: e)
  from s show "safe_docs rt (enforceRetention cfg rt w)" by (simp add: e)
  show "faults (enforceRetention cfg rt w) = []" by (simp add: e evict_all_facts f1)
qed

text \<open>
  Sorting a list with one more name, whose code units differ from those of every other
  name, puts that name in at its place.
\<close>

lemma sort_key_snoc:
  assumes "\<forall>y \<in> set xs. f y \<noteq> f x"
  shows "sort_key f (xs @ [x]) = insort_key f x (sort_key f xs)"
  using assms
proof (induction xs)
  case Nil
  show ?case by simp
next
  case (Cons a xs)
  then have "f a \<noteq> f x" and "sort_key f (xs @ [x]) = insort_key f x (sort_key f xs)"
    by simp_all
  then show ?case by (simp add: insort_key_left_comm)
qed

lemma listed_with_last:
  "\<forall>y \<in> set ys. \<not> utf16_units y < utf16_units x \<Longrightarrow> listed_with x ys = ys @ [x]"
  by (induction ys) simp_all

lemma listed_with_snoc:
  "utf16_units a < utf16_units x \<Longrightarrow> listed_with x (ys @ [a]) = listed_with x ys @ [a]"
  by (induction ys) simp_all

lemma rev_insort:
  assumes "sorted (map utf16_units xs)" and "utf16_units x \<notin> utf16_units ` set xs"
  shows "rev (insort_key utf16_units x xs) = listed_with x (rev xs)"
  using assms
proof (induction xs)
  case Nil
  show ?case by simp
next
  case (Cons a xs)
  from Cons.prems have ne: "utf16_units x \<noteq> utf16_units a"
    and le: "\<forall>y \<in> set xs. utf16_units a \<le> utf16_units y"
    and srt: "sorted (map utf16_units xs)" and nin: "utf16_units x \<notin> utf16_units ` set xs"
    by auto
  show ?case
  proof (cases "utf16_units x \<le> utf16_units a")
    case True
    with le have "\<forall>y \<in> set (rev xs @ [a]). \<not> utf16_units y < utf16_units x" by auto
    from listed_with_last [OF this] True show ?thesis by simp
  next
    case False
    then have lt: "utf16_units a < utf16_units x" by simp
    from False Cons.IH [OF srt nin] listed_with_snoc [OF lt, of "rev xs"] show ?thesis
      by simp
  qed
qed

text \<open>What lies beyond the first \<open>n\<close> names does not decide the first \<open>n\<close> after an insertion.\<close>

lemma take_listed_with: "take n (listed_with x (take n ys)) = take n (listed_with x ys)"
proof (induction ys arbitrary: n)
  case Nil
  show ?case by simp
next
  case (Cons y ys)
  show ?case
  proof (cases n)
    case 0
    then show ?thesis by simp
  next
    case (Suc k)
    show ?thesis
    proof (cases "utf16_units y < utf16_units x")
      case True
      have "take k (y # take k ys) = take k (y # ys)"
        by (cases k) (simp_all add: min_def)
      with True Suc show ?thesis by simp
    next
      case False
      with Suc Cons.IH [of k] show ?thesis by simp
    qed
  qed
qed

lemma ws_lead_zero:
  assumes "s \<noteq> []" and "hd s \<notin> \<Union> (set ` set toks)" and "[] \<notin> set toks"
  shows "ws_lead toks s = 0"
proof -
  have "\<not> prefix t s" if "t \<in> set toks" for t
  proof
    assume p: "prefix t s"
    from that assms(3) have "t \<noteq> []" by auto
    with p assms(1) have "hd t = hd s" by (auto simp: prefix_def)
    with \<open>t \<noteq> []\<close> that assms(2) show False by (metis UN_I hd_in_set)
  qed
  then have "find (\<lambda>t. prefix t s) toks = None" by (simp add: find_None_iff)
  then show ?thesis by (simp add: ws_lead_def)
qed

lemma trimEnd_id:
  assumes "s \<noteq> []" and "last s \<notin> ws_bytes"
  shows "trimEnd s = s"
proof -
  have u: "\<Union> (set ` set (map rev ws_tokens)) = ws_bytes" by (simp add: ws_bytes_def)
  have n: "[] \<notin> set (map rev ws_tokens)" by (simp add: ws_tokens_def)
  from assms have "rev s \<noteq> []" and "hd (rev s) \<notin> \<Union> (set ` set (map rev ws_tokens))"
    by (simp_all add: hd_rev ws_bytes_def)
  from ws_lead_zero [OF this n] assms(1) have "strip_lead (map rev ws_tokens) (length s) (rev s) = rev s"
    by (cases "length s") simp_all
  then show ?thesis by (simp add: trimEnd_def)
qed


lemma y_not_ws: "CHR ''y'' \<notin> ws_bytes"
  by (simp add: ws_bytes_def ws_tokens_def)

lemma trim_keeps_y:
  assumes "last t = CHR ''y''"
  shows "\<not> is_record (trim t)"
proof -
  from strip_lead_drop [of ws_tokens "length t" t] obtain k where
    k: "trimStart t = drop k t" by (auto simp: trimStart_def)
  show ?thesis
  proof (cases "drop k t = []")
    case True
    with k have "trim t = []" by (simp add: trim_def trimEnd_def)
    then show ?thesis by (simp add: is_record_def endsWith_def)
  next
    case False
    then have "k < length t" by simp
    then have "last (drop k t) = last t" by (rule last_drop)
    with assms have l: "last (drop k t) = CHR ''y''" by simp
    with y_not_ws have "last (drop k t) \<notin> ws_bytes" by simp
    with False have "trimEnd (drop k t) = drop k t" by (rule trimEnd_id)
    with k have t: "trim t = drop k t" by (simp add: trim_def)
    have "\<not> suffix ''.json'' (drop k t)"
    proof
      assume "suffix ''.json'' (drop k t)"
      then obtain u where "drop k t = u @ ''.json''" by (auto simp: suffix_def)
      then have "last (drop k t) = CHR ''n''" by simp
      with l show False by simp
    qed
    with t show ?thesis by (simp add: is_record_def endsWith_def)
  qed
qed

lemma trim_body_name: "\<not> is_record (trim (bodyName_for a))"
  by (rule trim_keeps_y) (simp add: bodyName_for_def)

lemma check_headers_Inl: "check_headers cfg req = Inl r \<Longrightarrow> \<not> accepted r"
  by (auto simp: check_headers_def requireToken_def accepted_def sendText_def Let_def
      split: option.splits if_splits)

lemma receive_body_rejects: "receive_body cfg rt req out e w = (Inl r, w') \<Longrightarrow> \<not> accepted r"
  by (auto simp: receive_body_def accepted_def sendText_def
      split: prod.splits sum.splits if_splits option.splits)

lemma ingest_Inl: 
  assumes "ingest cfg rt a req w = (Inl r, w')"
  shows "\<not> accepted r"
proof (cases "check_headers cfg req")
  case (Inl x)
  with assms check_headers_Inl [OF Inl] show ?thesis by (simp add: ingest_def)
next
  case (Inr e)
  have ie: "\<not> accepted internal_error"
    by (simp add: accepted_def internal_error_def sendText_def)
  show ?thesis
  proof (cases "fs_mkdir w")
    case (Pair ok w0)
    show ?thesis
    proof (cases ok)
      case False
      with assms Inr Pair ie show ?thesis by (auto simp: ingest_def Let_def)
    next
      case True
      show ?thesis
      proof (cases "receive_body cfg rt req (bodyName_for a @ ''.tmp'') e w0")
        case rb: (Pair x w1)
        show ?thesis
        proof (cases x)
          case (Inl y)
          with assms Inr Pair True rb receive_body_rejects [of cfg rt req _ e w0 y w1]
          show ?thesis by (auto simp: ingest_def Let_def)
        next
          case (Inr wr)
          with assms \<open>check_headers cfg req = Inr e\<close> Pair True rb ie show ?thesis
            by (auto simp: ingest_def Let_def split: prod.splits bool.splits)
        qed
      qed
    qed
  qed
qed

lemma accepted_ingest:
  assumes "accepted (fst (handlePostWebhook cfg rt a req w))"
  shows "\<exists>w1. ingest cfg rt a req w = (Inr (recordName_of a), w1)
           \<and> handlePostWebhook cfg rt a req w
               = (sendText 200 (''ok '' @ recordName_of a @ nl), enforceRetention cfg rt w1)"
proof (cases "ingest cfg rt a req w")
  case (Pair x w1)
  show ?thesis
  proof (cases x)
    case (Inl r)
    with Pair assms ingest_Inl [of cfg rt a req w r w1] show ?thesis
      by (simp add: handlePostWebhook_def)
  next
    case (Inr n)
    with Pair ingest_Inr [of cfg rt a req w n w1] show ?thesis
      by (simp add: handlePostWebhook_def)
  qed
qed

lemma update_set: "set (AList.update k v al) \<subseteq> insert (k, v) (set al)"
  by (induction al) auto

lemma delete_set: "set (AList.delete k al) \<subseteq> set al"
  by (auto simp: AList.delete_eq)

lemma is_record_names:
  "is_record (recordName_of a)" "\<not> is_record (bodyName_for a)"
  "\<not> is_record (recordName_of a @ ''.tmp'')"
  by (simp_all add: is_record_def endsWith_def recordName_of_def bodyName_for_def suffix_def)

lemma ingest_step:
  assumes ing: "ingest cfg rt a req w = (Inr n, w1)"
    and fa: "faults w = []" and sd: "safe_docs rt w"
    and new: "recordName_of a \<notin> set (record_names w)"
    and rb: "reads_own_body cfg rt a req"
  shows "record_names w1 = record_names w @ [recordName_of a]"
    and "safe_docs rt w1" and "faults w1 = []"
proof -
  let ?n = "recordName_of a" and ?b = "bodyName_for a" and ?tr = "recordName_of a @ ''.tmp''"
  let ?doc = "JSON_stringify rt (written_record cfg rt a req)"
  let ?F = "files w"
  let ?Y = "AList.update ?b (body_of req) ?F"
  let ?X = "AList.delete ?tr ?Y"
  note I = ingest_Inr [OF ing]
  from I have f: "files w1 = AList.update ?n ?doc ?X" by simp
  from I fa show "faults w1 = []" by simp
  have r1: "filter is_record (map fst ?Y) = record_names w"
    by (simp add: update_keys record_names_def is_record_names)
  have r2: "filter is_record (map fst ?X) = record_names w"
    by (simp add: delete_keys filter_removeAll_other is_record_names r1)
  from new r2 have "?n \<notin> set (filter is_record (map fst ?X))" by simp
  then have nn: "?n \<notin> set (map fst ?X)" by (simp add: is_record_names)
  from f nn r2 show "record_names w1 = record_names w @ [?n]"
    by (simp add: record_names_def update_keys is_record_names)
  show "safe_docs rt w1"
    unfolding safe_docs_def
  proof (intro ballI, clarify)
    fix m c assume mc: "(m, c) \<in> set (files w1)" and m: "is_record m"
      and bad: "is_record (bodyName_of rt (Some c))"
    from mc f update_set [of ?n ?doc ?X] have "(m, c) = (?n, ?doc) \<or> (m, c) \<in> set ?X" by auto
    then show False
    proof
      assume "(m, c) = (?n, ?doc)"
      with rb bad trim_body_name [of a] show False by (simp add: reads_own_body_def)
    next
      assume "(m, c) \<in> set ?X"
      with delete_set [of ?tr ?Y] have "(m, c) \<in> set ?Y" by auto
      with update_set [of ?b "body_of req" ?F] have "(m, c) = (?b, body_of req) \<or> (m, c) \<in> set ?F"
        by auto
      then show False
      proof
        assume "(m, c) = (?b, body_of req)"
        with m show False by (simp add: is_record_names)
      next
        assume "(m, c) \<in> set ?F"
        with sd m bad show False by (auto simp: safe_docs_def)
      qed
    qed
  qed
qed

lemma ingest_all_Cons:
  "fst (ingest_all cfg rt ((a, req) # rest) w)
     = fst (handlePostWebhook cfg rt a req w)
       # fst (ingest_all cfg rt rest (snd (handlePostWebhook cfg rt a req w)))"
  "snd (ingest_all cfg rt ((a, req) # rest) w)
     = snd (ingest_all cfg rt rest (snd (handlePostWebhook cfg rt a req w)))"
  by (simp_all add: split_beta)

text \<open>
  Requests that are all accepted, with names that differ from each other and from the
  names given earlier: the listing after the last of them is the listing of all the names
  given so far, cut at \<open>maxRecords\<close>.
\<close>

lemma retention_run:
  assumes "0 < maxRecords cfg"
  shows "faults w = [] \<Longrightarrow> safe_docs rt w
    \<Longrightarrow> listable w = take (nat (maxRecords cfg)) (rev (sort_key utf16_units earlier))
    \<Longrightarrow> distinct (map utf16_units (earlier @ map (\<lambda>p. recordName_of (fst p)) xs))
    \<Longrightarrow> \<forall>r \<in> set (fst (ingest_all cfg rt xs w)). accepted r
    \<Longrightarrow> \<forall>(a, req) \<in> set xs. reads_own_body cfg rt a req
    \<Longrightarrow> listable (snd (ingest_all cfg rt xs w))
          = take (nat (maxRecords cfg))
              (rev (sort_key utf16_units (earlier @ map (\<lambda>p. recordName_of (fst p)) xs)))"
proof (induction xs arbitrary: w earlier)
  case Nil
  then show ?case by simp
next
  case (Cons x xs)
  obtain a req where x: "x = (a, req)" by (cases x)
  let ?n = "recordName_of a" and ?N = "nat (maxRecords cfg)"
  let ?L = "rev (sort_key utf16_units earlier)"
  from Cons.prems(5) x have acc: "accepted (fst (handlePostWebhook cfg rt a req w))"
    and rest: "\<forall>r \<in> set (fst (ingest_all cfg rt xs (snd (handlePostWebhook cfg rt a req w)))).
                 accepted r"
    by (simp_all add: ingest_all_Cons del: ingest_all.simps)
  from accepted_ingest [OF acc] obtain w1 where
    ing: "ingest cfg rt a req w = (Inr ?n, w1)"
    and h: "snd (handlePostWebhook cfg rt a req w) = enforceRetention cfg rt w1" by auto
  from Cons.prems(4) x
  have dk: "distinct (map utf16_units (earlier @ ?n # map (\<lambda>p. recordName_of (fst p)) xs))"
    by simp
  then have nk: "utf16_units ?n \<notin> utf16_units ` set earlier"
    and de: "distinct (map utf16_units earlier)"
    by auto
  from de have dd: "distinct earlier" by (simp add: distinct_map)
  have sub: "set (listable w) \<subseteq> set earlier"
    using Cons.prems(3) set_take_subset [of ?N ?L] by auto
  have rl: "set (record_names w) = set (listable w)" by (simp add: listable_alt)
  with sub nk have nkr: "utf16_units ?n \<notin> utf16_units ` set (record_names w)"
    by blast
  then have new: "?n \<notin> set (record_names w)" by blast
  from nkr have nky: "\<forall>y \<in> set (record_names w). utf16_units y \<noteq> utf16_units ?n"
    by (metis imageI)
  from Cons.prems(6) x have rb: "reads_own_body cfg rt a req" by simp
  note S = ingest_step [OF ing Cons.prems(1,2) new rb]
  from dd Cons.prems(3) have dl: "distinct (listable w)" by simp
  then have dr: "distinct (record_names w)" by (simp add: listable_alt)
  have "listable w1 = rev (sort_key utf16_units (record_names w @ [?n]))"
    by (simp only: listable_alt S(1))
  also have "\<dots> = rev (insort_key utf16_units ?n (sort_key utf16_units (record_names w)))"
    by (simp only: sort_key_snoc [OF nky])
  also have "\<dots> = listed_with ?n (rev (sort_key utf16_units (record_names w)))"
    using nkr by (intro rev_insort) simp_all
  finally have l1: "listable w1 = listed_with ?n (take ?N ?L)"
    using Cons.prems(3) by (simp add: listable_alt)
  from dr new S(1) have "distinct (record_names w1)" by simp
  then have d1: "distinct (listable w1)" by (simp add: listable_alt)
  note R = retention_keeps_newest [OF assms S(3) S(2) d1]
  from nk have "\<forall>y \<in> set earlier. utf16_units y \<noteq> utf16_units ?n"
    by (metis imageI)
  then have "rev (sort_key utf16_units (earlier @ [?n]))
      = rev (insort_key utf16_units ?n (sort_key utf16_units earlier))"
    by (simp only: sort_key_snoc)
  also have "\<dots> = listed_with ?n ?L"
    using nk by (intro rev_insort) simp_all
  finally have l': "rev (sort_key utf16_units (earlier @ [?n])) = listed_with ?n ?L" .
  from R(1) l1 have "listable (enforceRetention cfg rt w1) = take ?N (listed_with ?n (take ?N ?L))"
    by simp
  with l' have l2: "listable (enforceRetention cfg rt w1)
      = take ?N (rev (sort_key utf16_units (earlier @ [?n])))"
    by (simp only: take_listed_with)
  from dk have dk2: "distinct (map utf16_units ((earlier @ [?n]) @ map (\<lambda>p. recordName_of (fst p)) xs))"
    by simp
  from Cons.prems(6) have rbs: "\<forall>(a, req) \<in> set xs. reads_own_body cfg rt a req" by simp
  from rest h have rest2: "\<forall>r \<in> set (fst (ingest_all cfg rt xs (enforceRetention cfg rt w1))).
      accepted r" by simp
  from Cons.IH [OF R(3) R(2) l2 dk2 rest2 rbs] x h show ?case
    by (simp add: ingest_all_Cons del: ingest_all.simps)
qed

lemma listable_empty: "files w = [] \<Longrightarrow> listable w = []"
  by (simp add: listable_def newest_first_def)

text \<open>
  Claim C3, as amended. Requests are handled one after the other, starting from an empty
  directory on which no operation fails; every one is answered 200; the keep-count
  \<open>maxRecords\<close> is positive; the record names the requests are given differ from each
  other (as JavaScript strings, that is, in their code units); and the runtime reads back
  the \<open>body_file\<close> of each document written. Then after the last request's retention pass
  the listable records are those with the \<open>maxRecords\<close> greatest names among all the
  requests, in the order of \<open>Array.prototype.sort\<close> on the names, greatest first,
  \<open>min k maxRecords\<close> of them after \<open>k\<close> requests: none of these has been evicted and no
  other record is left. They are the \<open>maxRecords\<close> most recently ingested ones when the
  names increase in the order of arrival; the order of arrival plays no other part. A
  keep-count of zero or less makes \<open>enforceRetention\<close> return the world it was given.
\<close>

theorem C3_retention_keeps_newest:
  assumes "0 < maxRecords cfg"
    and "files w = []" and "faults w = []"
    and "\<forall>r \<in> set (fst (ingest_all cfg rt xs w)). accepted r"
    and "distinct (map (\<lambda>p. utf16_units (recordName_of (fst p))) xs)"
    and "\<forall>(a, req) \<in> set xs. reads_own_body cfg rt a req"
  shows "listable (snd (ingest_all cfg rt xs w))
           = take (nat (maxRecords cfg))
               (rev (sort_key utf16_units (map (\<lambda>p. recordName_of (fst p)) xs)))
         \<and> length (listable (snd (ingest_all cfg rt xs w)))
           = min (length xs) (nat (maxRecords cfg))
         \<and> (sorted_wrt (<) (map (\<lambda>p. utf16_units (recordName_of (fst p))) xs)
              \<longrightarrow> listable (snd (ingest_all cfg rt xs w))
                    = take (nat (maxRecords cfg)) (rev (map (\<lambda>p. recordName_of (fst p)) xs)))
         \<and> (\<forall>cfg' v. maxRecords cfg' \<le> 0 \<longrightarrow> enforceRetention cfg' rt v = v)"
proof -
  let ?names = "map (\<lambda>p. recordName_of (fst p)) xs"
  from assms(2) have s: "safe_docs rt w" by (simp add: safe_docs_def)
  from assms(2) have l: "listable w = take (nat (maxRecords cfg)) (rev (sort_key utf16_units []))"
    by (simp add: listable_empty)
  from assms(5) have o: "distinct (map utf16_units ([] @ ?names))"
    by (simp add: comp_def)
  from retention_run [OF assms(1,3) s l o assms(4,6)]
  have a: "listable (snd (ingest_all cfg rt xs w))
           = take (nat (maxRecords cfg)) (rev (sort_key utf16_units ?names))"
    by simp
  then have b: "length (listable (snd (ingest_all cfg rt xs w)))
           = min (length xs) (nat (maxRecords cfg))" by simp
  have c: "listable (snd (ingest_all cfg rt xs w)) = take (nat (maxRecords cfg)) (rev ?names)"
    if "sorted_wrt (<) (map (\<lambda>p. utf16_units (recordName_of (fst p))) xs)"
  proof -
    from that have "sorted (map utf16_units ?names)"
      by (simp add: comp_def strict_sorted_iff)
    then have "sort_key utf16_units ?names = ?names" by (rule sort_key_id_if_sorted)
    with a show ?thesis by simp
  qed
  have d: "\<forall>cfg' v. maxRecords cfg' \<le> 0 \<longrightarrow> enforceRetention cfg' rt v = v"
    by (simp add: enforceRetention_def)
  from a b c d show ?thesis by blast
qed

text \<open>
  Two requests that arrive within the same second, the second with the smaller random
  suffix, and one record to keep.
\<close>

lemma example_same_second:
  "ingest_all example_config example_runtime
     [(arrival1, post [''ab'', ''c'']), (arrival2, post [''xyz''])] empty_world
   = ([sendText 200 (''ok 20260129T061800Z-ffffffffffff.json'' @ nl),
       sendText 200 (''ok 20260129T061800Z-000000000000.json'' @ nl)],
      \<lparr>files = [(''20260129T061800Z-ffffffffffff.body'', ''abc''),
                (''20260129T061800Z-ffffffffffff.json'',
                 ''body_file=20260129T061800Z-ffffffffffff.body'')],
       faults = [],
       trace = [Mkdir, OpenExcl ''20260129T061800Z-ffffffffffff.body.tmp'',
          WriteChunk ''20260129T061800Z-ffffffffffff.body.tmp'',
          WriteChunk ''20260129T061800Z-ffffffffffff.body.tmp'',
          Rename ''20260129T061800Z-ffffffffffff.body.tmp''
            ''20260129T061800Z-ffffffffffff.body'',
          WriteFile ''20260129T061800Z-ffffffffffff.json.tmp'',
          Rename ''20260129T061800Z-ffffffffffff.json.tmp''
            ''20260129T061800Z-ffffffffffff.json'',
          Readdir, Mkdir, OpenExcl ''20260129T061800Z-000000000000.body.tmp'',
          WriteChunk ''20260129T061800Z-000000000000.body.tmp'',
          Rename ''20260129T061800Z-000000000000.body.tmp''
            ''20260129T061800Z-000000000000.body'',
          WriteFile ''20260129T061800Z-000000000000.json.tmp'',
          Rename ''20260129T061800Z-000000000000.json.tmp''
            ''20260129T061800Z-000000000000.json'',
          Readdir, ReadFile ''20260129T061800Z-000000000000.json'',
          Unlink ''20260129T061800Z-000000000000.json'',
          Unlink ''20260129T061800Z-000000000000.body'']\<rparr>)"
  by code_simp

lemma example_newest_first_one:
  "newest_first [''20260129T061800Z-ffffffffffff.body'', ''20260129T061800Z-ffffffffffff.json'']
     = [''20260129T061800Z-ffffffffffff.json'']"
  by code_simp

text \<open>
  Claim C3 as stated fails: both requests are answered 200, and after the second
  request's retention pass the one listable record is the first request's. The record
  of the most recent request has been evicted, since its name sorts below the other.
\<close>

theorem C3_counterexample:
  "fst (ingest_all example_config example_runtime
          [(arrival1, post [''ab'', ''c'']), (arrival2, post [''xyz''])] empty_world)
     = [sendText 200 (''ok 20260129T061800Z-ffffffffffff.json'' @ nl),
        sendText 200 (''ok 20260129T061800Z-000000000000.json'' @ nl)]
   \<and> maxRecords example_config = 1
   \<and> listable (snd (ingest_all example_config example_runtime
          [(arrival1, post [''ab'', ''c'']), (arrival2, post [''xyz''])] empty_world))
     = [''20260129T061800Z-ffffffffffff.json'']
   \<and> recordName_of arrival2 = ''20260129T061800Z-000000000000.json''"
proof (intro conjI)
  show "fst (ingest_all example_config example_runtime
          [(arrival1, post [''ab'', ''c'']), (arrival2, post [''xyz''])] empty_world)
     = [sendText 200 (''ok 20260129T061800Z-ffffffffffff.json'' @ nl),
        sendText 200 (''ok 20260129T061800Z-000000000000.json'' @ nl)]"
    by (simp only: example_same_second fst_conv)
  show "maxRecords example_config = 1" by (simp add: example_config_def)
  show "listable (snd (ingest_all example_config example_runtime
          [(arrival1, post [''ab'', ''c'']), (arrival2, post [''xyz''])] empty_world))
     = [''20260129T061800Z-ffffffffffff.json'']"
    by (simp only: example_same_second snd_conv)
       (simp add: listable_def example_newest_first_one)
  show "recordName_of arrival2 = ''20260129T061800Z-000000000000.json''"
    by (simp add: arrival2_def recordName_of_def)
qed

text \<open>Two requests one second apart and one record to keep.\<close>

lemma example_two_seconds:
  "ingest_all example_config example_runtime
     [(arrival1, post [''ab'', ''c'']), (arrival3, post [''xyz''])] empty_world
   = ([sendText 200 (''ok 20260129T061800Z-ffffffffffff.json'' @ nl),
       sendText 200 (''ok 20260129T061801Z-000000000000.json'' @ nl)],
      \<lparr>files = [(''20260129T061801Z-000000000000.body'', ''xyz''),
                (''20260129T061801Z-000000000000.json'',
                 ''body_file=20260129T061801Z-000000000000.body'')],
       faults = [],
       trace = [Mkdir, OpenExcl ''20260129T061800Z-ffffffffffff.body.tmp'',
          WriteChunk ''20260129T061800Z-ffffffffffff.body.tmp'',
          WriteChunk ''20260129T061800Z-ffffffffffff.body.tmp'',
          Rename ''20260129T061800Z-ffffffffffff.body.tmp''
            ''20260129T061800Z-ffffffffffff.body'',
          WriteFile ''20260129T061800Z-ffffffffffff.json.tmp'',
          Rename ''20260129T061800Z-ffffffffffff.json.tmp''
            ''20260129T061800Z-ffffffffffff.json'',
          Readdir, Mkdir, OpenExcl ''20260129T061801Z-000000000000.body.tmp'',
          WriteChunk ''20260129T061801Z-000000000000.body.tmp'',
          Rename ''20260129T061801Z-000000000000.body.tmp''
            ''20260129T061801Z-000000000000.body'',
          WriteFile ''20260129T061801Z-000000000000.json.tmp'',
          Rename ''20260129T061801Z-000000000000.json.tmp''
            ''20260129T061801Z-000000000000.json'',
          Readdir, ReadFile ''20260129T061800Z-ffffffffffff.json'',
          Unlink ''20260129T061800Z-ffffffffffff.json'',
          Unlink ''20260129T061800Z-ffffffffffff.body'']\<rparr>)"
  by code_simp

lemma example_reads_own_body:
  "reads_own_body example_config example_runtime arrival1 (post [''ab'', ''c''])"
  "reads_own_body example_config example_runtime arrival3 (post [''xyz''])"
  by code_simp+

lemma example_names_sorted:
  "sorted_wrt (<) (map (\<lambda>p. utf16_units (recordName_of (fst p)))
     [(arrival1, post [''ab'', ''c'']), (arrival3, post [''xyz''])])"
  by code_simp

lemma example_names_distinct:
  "distinct (map (\<lambda>p. utf16_units (recordName_of (fst p)))
     [(arrival1, post [''ab'', ''c'']), (arrival3, post [''xyz''])])"
  "distinct (map (\<lambda>p. utf16_units (recordName_of (fst p)))
     [(arrival1, post [''ab'', ''c'']), (arrival2, post [''xyz''])])"
  by code_simp+

lemma example_reads_own_body2:
  "reads_own_body example_config example_runtime arrival2 (post [''xyz''])"
  by code_simp

lemma example_sort_same_second:
  "sort_key utf16_units (map (\<lambda>p. recordName_of (fst p))
     [(arrival1, post [''ab'', ''c'']), (arrival2, post [''xyz''])])
   = [recordName_of arrival2, recordName_of arrival1]"
  by code_simp

text \<open>
  The theorem at those two requests, where the second request's record is the one kept,
  and at the two requests of the same second, where the first request's record is.
\<close>

theorem C3_retention_keeps_newest_witness:
  "0 < maxRecords example_config
   \<and> sorted_wrt (<) (map (\<lambda>p. utf16_units (recordName_of (fst p)))
         [(arrival1, post [''ab'', ''c'']), (arrival3, post [''xyz''])])
   \<and> listable (snd (ingest_all example_config example_runtime
          [(arrival1, post [''ab'', ''c'']), (arrival3, post [''xyz''])] empty_world))
     = [recordName_of arrival3]
   \<and> length (listable (snd (ingest_all example_config example_runtime
          [(arrival1, post [''ab'', ''c'']), (arrival3, post [''xyz''])] empty_world)))
     = min 2 (nat (maxRecords example_config))
   \<and> listable (snd (ingest_all example_config example_runtime
          [(arrival1, post [''ab'', ''c'']), (arrival2, post [''xyz''])] empty_world))
     = [recordName_of arrival1]"
proof -
  let ?xs = "[(arrival1, post [''ab'', ''c'']), (arrival3, post [''xyz''])]"
  let ?ys = "[(arrival1, post [''ab'', ''c'']), (arrival2, post [''xyz''])]"
  have 1: "0 < maxRecords example_config" by (simp add: example_config_def)
  have 2: "files empty_world = []" and 3: "faults empty_world = []"
    by (simp_all add: empty_world_def)
  have 4: "\<forall>r \<in> set (fst (ingest_all example_config example_runtime ?xs empty_world)).
             accepted r"
    by (simp only: example_two_seconds fst_conv) (simp add: accepted_def sendText_def)
  have 5: "\<forall>r \<in> set (fst (ingest_all example_config example_runtime ?ys empty_world)).
             accepted r"
    by (simp only: example_same_second fst_conv) (simp add: accepted_def sendText_def)
  have 6: "\<forall>(a, req) \<in> set ?xs. reads_own_body example_config example_runtime a req"
    by (simp add: example_reads_own_body)
  have 7: "\<forall>(a, req) \<in> set ?ys. reads_own_body example_config example_runtime a req"
    by (simp add: example_reads_own_body example_reads_own_body2)
  from C3_retention_keeps_newest [OF 1 2 3 4 example_names_distinct(1) 6] example_names_sorted
  have "listable (snd (ingest_all example_config example_runtime ?xs empty_world))
      = take (nat (maxRecords example_config)) (rev (map (\<lambda>p. recordName_of (fst p)) ?xs))"
    by blast
  then have l: "listable (snd (ingest_all example_config example_runtime ?xs empty_world))
      = [recordName_of arrival3]"
    by (simp add: example_config_def)
  from C3_retention_keeps_newest [OF 1 2 3 5 example_names_distinct(2) 7]
  have "listable (snd (ingest_all example_config example_runtime ?ys empty_world))
      = take (nat (maxRecords example_config))
          (rev (sort_key utf16_units (map (\<lambda>p. recordName_of (fst p)) ?ys)))"
    by blast
  then have k: "listable (snd (ingest_all example_config example_runtime ?ys empty_world))
      = [recordName_of arrival1]"
    by (simp only: example_sort_same_second) (simp add: example_config_def)
  show ?thesis
    unfolding l k using 1 example_names_sorted by (simp add: example_config_def)
qed

end
